theory Spec2Isabelle
  imports Main "HOL-Library.Word"
begin

unbundle bit_operations_syntax

section \<open>JavaScript values\<close>

text \<open>
  The values that cross the struct engine and the FFI shim.
  \<^item> A Number is modelled by an integer: \<open>JNum n\<close> stands for the double of value \<open>n\<close>
    (fractional Numbers, NaN and the infinities lie outside the type; where a
    conversion gives NaN, the model gives \<open>None\<close>). Every integer up to \<open>2 ^ 53\<close> in
    absolute value is a double; a conversion that makes a Number of a larger integer
    rounds it (\<open>round_double\<close>).
  \<^item> A BigInt is an integer of its own constructor.
  \<^item> A string is a list of characters; beyond ASCII the list is the text in UTF-8. The
    code never takes the length of a string, only of its encoding, and
    \<open>TextEncoder\<close> and \<open>TextDecoder\<close> are the engine's (parameters of the host).
  \<^item> \<open>JObj k\<close> is any other object (a pointer object, a function), identified by a
    number; what the engine makes of it is a parameter of the host.
\<close>

type_synonym byte = "8 word"

datatype jsval =
    JUndefined
  | JNull
  | JBool bool
  | JNum int
  | JBig int
  | JStr string
  | JArr "jsval list"
  | JObj nat
  | JBuffer "byte list"
  | JView "byte list"

datatype error =
    InvalidEnumValue
  | UnsupportedPointer
  | UnsupportedRuntime
  | BunFFIUnavailable
  | DenoFFIUnavailable
  | ReceivedNullPointer
  | FailedToGetPointer
  | RangeError
  | TypeError
  | BigIntConversionError

text \<open>\<open>value == null\<close>: true of \<open>null\<close> and \<open>undefined\<close> only.\<close>

fun nullish :: "jsval \<Rightarrow> bool" where
  "nullish JUndefined = True"
| "nullish JNull = True"
| "nullish _ = False"

text \<open>Truthiness, as \<open>value ? 1 : 0\<close> and \<open>!pointer\<close> read it.\<close>

fun truthy :: "jsval \<Rightarrow> bool" where
  "truthy JUndefined = False"
| "truthy JNull = False"
| "truthy (JBool b) = b"
| "truthy (JNum n) = (n \<noteq> 0)"
| "truthy (JBig n) = (n \<noteq> 0)"
| "truthy (JStr s) = (s \<noteq> [])"
| "truthy _ = True"

text \<open>The values that are objects (\<open>typeof\<close> gives \<open>object\<close> or \<open>function\<close>, \<open>null\<close> apart).\<close>

fun is_object :: "jsval \<Rightarrow> bool" where
  "is_object (JArr xs) = True"
| "is_object (JObj k) = True"
| "is_object (JBuffer bs) = True"
| "is_object (JView bs) = True"
| "is_object _ = False"

text \<open>Decimal rendering of an integer.\<close>

fun string_of_nat :: "nat \<Rightarrow> string" where
  "string_of_nat n =
     (if n < 10 then [char_of (48 + n)]
      else string_of_nat (n div 10) @ [char_of (48 + n mod 10)])"

definition string_of_int :: "int \<Rightarrow> string" where
  "string_of_int i = (if i < 0 then CHR ''-'' # string_of_nat (nat (- i)) else string_of_nat (nat i))"

text \<open>
  The Number nearest to an integer (ties to the even significand), which is what
  \<open>Number(bigint)\<close> gives: \<open>excess a\<close> is the number of bits that \<open>a\<close> has beyond the
  53 of a double's significand. (Integers of 1024 bits and more, which give an infinity,
  lie outside the model.)
\<close>

function excess :: "int \<Rightarrow> nat" where
  "excess a = (if a < 2 ^ 53 then 0 else Suc (excess (a div 2)))"
  by pat_completeness auto
termination
  by (relation "measure nat") auto

declare excess.simps [simp del]

definition round_double :: "int \<Rightarrow> int" where
  "round_double n =
     (let a = \<bar>n\<bar>;
          e = excess a;
          q = a div 2 ^ e;
          r = a mod 2 ^ e;
          q' = (if 2 * r > 2 ^ e \<or> (2 * r = 2 ^ e \<and> odd q) then q + 1 else q)
      in sgn n * (q' * 2 ^ e))"

section \<open>Primitive types of the struct engine (deno-ffi-structs.ts)\<close>

datatype PrimitiveType =
  U8 | Bool_u8 | Bool_u32 | U16 | I16 | U32 | I32 | U64 | F32 | F64 | Pointer

section \<open>The host: runtime globals and the engine (runtime.ts, ffi.ts)\<close>

text \<open>
  What the code reads from \<open>globalThis\<close>. The functions of the two runtimes are
  parameters of the model. A buffer is known to the host by the address it stands at;
  a pointer is a \<open>jsval\<close>: a Number, a BigInt or a pointer object.

  What the JavaScript engine contributes and the model does not compute is a parameter
  too:
  \<^item> \<open>host_Object_prototype key\<close>: the value that an object literal without an own
    property \<open>key\<close> gives for \<open>obj[key]\<close> (\<open>undefined\<close> for most keys, a function
    for \<open>toString\<close>, \<open>constructor\<close> and the other members of \<open>Object.prototype\<close>);
  \<^item> \<open>host_getProperty v key\<close>: the property \<open>key\<close> of an object \<open>v\<close> that stands as
    the prototype of another;
  \<^item> \<open>host_TextEncoder_encode\<close> and \<open>host_TextDecoder_decode\<close>: \<open>new
    TextEncoder().encode\<close> and \<open>new TextDecoder().decode\<close>;
  \<^item> \<open>host_NumberToString\<close>: \<open>String(n)\<close> of a Number beyond \<open>2 ^ 53\<close>, whose digits
    the engine shortens;
  \<^item> reading a string as a Number (\<open>None\<close> for NaN) or as a BigInt (\<open>None\<close> for a
    SyntaxError);
  \<^item> the conversions of an object to a string, a Number and a BigInt, which run the
    object's own methods (user code is a total function of the model, here as for
    the transforms of a struct);
  \<^item> the IEEE 754 bit patterns behind \<open>setFloat32\<close>, \<open>setFloat64\<close>, \<open>getFloat32\<close>
    and \<open>getFloat64\<close> (the Number given as \<open>None\<close> is NaN).
\<close>

datatype RuntimeKind = Bun | Deno

record bun_ffi =
  bun_ptr :: "int \<Rightarrow> jsval"
  bun_toArrayBuffer :: "jsval \<Rightarrow> int \<Rightarrow> int option \<Rightarrow> byte list"

record unsafe_pointer =
  up_of :: "int \<Rightarrow> jsval"
  up_offset :: "(jsval \<Rightarrow> int \<Rightarrow> jsval) option"
  up_value :: "(jsval \<Rightarrow> jsval) option"

record deno_global =
  deno_dlopen :: bool
  deno_UnsafePointer :: "unsafe_pointer option"
  deno_UnsafePointerView :: "(jsval \<Rightarrow> int \<Rightarrow> byte list) option"
  deno_UnsafeCallback :: bool
  deno_build_arch :: "string option"

record host =
  host_Bun_FFI :: "bun_ffi option"
  host_Deno :: "deno_global option"
  host_process_arch :: "string option"
  host_Object_prototype :: "string \<Rightarrow> jsval"
  host_getProperty :: "jsval \<Rightarrow> string \<Rightarrow> jsval"
  host_TextEncoder_encode :: "string \<Rightarrow> byte list"
  host_TextDecoder_decode :: "byte list \<Rightarrow> string"
  host_NumberToString :: "int \<Rightarrow> string"
  host_StringToNumber :: "string \<Rightarrow> int option"
  host_StringToBigInt :: "string \<Rightarrow> int option"
  host_ObjectToString :: "jsval \<Rightarrow> string"
  host_ObjectToNumber :: "jsval \<Rightarrow> int option"
  host_ObjectToBigInt :: "jsval \<Rightarrow> int option"
  host_float32_bits :: "int option \<Rightarrow> 32 word"
  host_float64_bits :: "int option \<Rightarrow> 64 word"
  host_float32_value :: "32 word \<Rightarrow> jsval"
  host_float64_value :: "64 word \<Rightarrow> jsval"

definition detectFfiRuntime :: "host \<Rightarrow> error + RuntimeKind" where
  "detectFfiRuntime h =
     (if host_Bun_FFI h \<noteq> None then Inr Bun
      else if (case host_Deno h of None \<Rightarrow> False | Some d \<Rightarrow> deno_dlopen d) then Inr Deno
      else Inl UnsupportedRuntime)"

definition getBunFFI :: "host \<Rightarrow> error + bun_ffi" where
  "getBunFFI h = (case host_Bun_FFI h of None \<Rightarrow> Inl BunFFIUnavailable | Some f \<Rightarrow> Inr f)"

text \<open>
  \<open>getDenoFFI\<close> returns the Deno global once its four FFI parts are there; the model
  returns the two parts the callers use.
\<close>

definition getDenoFFI ::
  "host \<Rightarrow> error + (unsafe_pointer \<times> (jsval \<Rightarrow> int \<Rightarrow> byte list))" where
  "getDenoFFI h =
     (case host_Deno h of
        None \<Rightarrow> Inl DenoFFIUnavailable
      | Some d \<Rightarrow>
          (if \<not> deno_dlopen d \<or> \<not> deno_UnsafeCallback d then Inl DenoFFIUnavailable
           else case deno_UnsafePointer d of
             None \<Rightarrow> Inl DenoFFIUnavailable
           | Some up \<Rightarrow>
               (case deno_UnsafePointerView d of
                  None \<Rightarrow> Inl DenoFFIUnavailable
                | Some view \<Rightarrow> Inr (up, view))))"

section \<open>Conversions of the engine\<close>

text \<open>
  \<open>String(value)\<close>, which is also the property key that \<open>mapping[value]\<close> looks up.
  A Number up to \<open>2 ^ 53\<close> prints its decimal digits, a BigInt always.
\<close>

fun js_String :: "host \<Rightarrow> jsval \<Rightarrow> string" where
  "js_String h JUndefined = ''undefined''"
| "js_String h JNull = ''null''"
| "js_String h (JBool b) = (if b then ''true'' else ''false'')"
| "js_String h (JNum n) = (if \<bar>n\<bar> \<le> 2 ^ 53 then string_of_int n else host_NumberToString h n)"
| "js_String h (JBig n) = string_of_int n"
| "js_String h (JStr s) = s"
| "js_String h v = host_ObjectToString h v"

text \<open>
  \<open>Number(value)\<close>, \<open>None\<close> for NaN; a BigInt is rounded to the nearest double.
  \<open>Number(value ?? 0)\<close> is \<open>number_or_0\<close>, and an integer setter of a \<open>DataView\<close>
  stores NaN as 0.
\<close>

fun js_Number :: "host \<Rightarrow> jsval \<Rightarrow> int option" where
  "js_Number h JUndefined = None"
| "js_Number h JNull = Some 0"
| "js_Number h (JBool b) = Some (if b then 1 else 0)"
| "js_Number h (JNum n) = Some n"
| "js_Number h (JBig n) = Some (round_double n)"
| "js_Number h (JStr s) = host_StringToNumber h s"
| "js_Number h v = host_ObjectToNumber h v"

definition number_or_0 :: "host \<Rightarrow> jsval \<Rightarrow> int option" where
  "number_or_0 h v = (if nullish v then Some 0 else js_Number h v)"

definition nan_to_0 :: "int option \<Rightarrow> int" where
  "nan_to_0 n = (case n of None \<Rightarrow> 0 | Some i \<Rightarrow> i)"

text \<open>\<open>BigInt(value)\<close>: \<open>undefined\<close> and \<open>null\<close> throw, a string is parsed.\<close>

fun js_BigInt :: "host \<Rightarrow> jsval \<Rightarrow> error + int" where
  "js_BigInt h JUndefined = Inl BigIntConversionError"
| "js_BigInt h JNull = Inl BigIntConversionError"
| "js_BigInt h (JBool b) = Inr (if b then 1 else 0)"
| "js_BigInt h (JNum n) = Inr n"
| "js_BigInt h (JBig n) = Inr n"
| "js_BigInt h (JStr s) =
     (case host_StringToBigInt h s of
        None \<Rightarrow> Inl BigIntConversionError
      | Some n \<Rightarrow> Inr n)"
| "js_BigInt h v =
     (case host_ObjectToBigInt h v of
        None \<Rightarrow> Inl BigIntConversionError
      | Some n \<Rightarrow> Inr n)"

section \<open>Objects and their properties\<close>

text \<open>
  An object is the list of its own properties, in the order of their creation, and its
  prototype: \<open>None\<close> is \<open>Object.prototype\<close>, the prototype of an object literal, and
  \<open>Some v\<close> is another prototype \<open>v\<close> (\<open>null\<close> or an object). \<open>obj[key]\<close> reads the own
  property and, where there is none, what the prototype gives. (JavaScript enumerates
  the keys that are array indices first; no code here enumerates an object of the model.)
\<close>

record js_object =
  obj_own :: "(string \<times> jsval) list"
  obj_proto :: "jsval option"

definition object_literal :: "(string \<times> jsval) list \<Rightarrow> js_object" where
  "object_literal properties = \<lparr>obj_own = properties, obj_proto = None\<rparr>"

definition empty_object :: js_object where
  "empty_object = object_literal []"

definition inherited :: "host \<Rightarrow> jsval option \<Rightarrow> string \<Rightarrow> jsval" where
  "inherited h proto key =
     (case proto of
        None \<Rightarrow> host_Object_prototype h key
      | Some p \<Rightarrow> if p = JNull then JUndefined else host_getProperty h p key)"

definition get_prop :: "host \<Rightarrow> js_object \<Rightarrow> string \<Rightarrow> jsval" where
  "get_prop h obj key =
     (case map_of (obj_own obj) key of
        None \<Rightarrow> inherited h (obj_proto obj) key
      | Some v \<Rightarrow> v)"

text \<open>
  \<open>obj[key] = v\<close> on an object that the code has made from \<open>{}\<close>: an own property is
  overwritten; otherwise the assignment creates one, except under the key
  \<open>__proto__\<close>, an accessor that the object inherits from \<open>Object.prototype\<close> (unless
  its prototype has become \<open>null\<close>): there an object or \<open>null\<close> becomes the prototype,
  and any other value is dropped.
\<close>

definition set_prop :: "js_object \<Rightarrow> string \<Rightarrow> jsval \<Rightarrow> js_object" where
  "set_prop obj key v =
     (if key \<in> fst ` set (obj_own obj)
      then obj\<lparr>obj_own := map (\<lambda>(k, w). if k = key then (k, v) else (k, w)) (obj_own obj)\<rparr>
      else if key = ''__proto__'' \<and> obj_proto obj \<noteq> Some JNull
      then (if is_object v \<or> v = JNull then obj\<lparr>obj_proto := Some v\<rparr> else obj)
      else obj\<lparr>obj_own := obj_own obj @ [(key, v)]\<rparr>)"

section \<open>Enumerations: \<open>defineEnum\<close> (deno-ffi-structs.ts)\<close>

text \<open>
  The mapping is an object literal, given by the list \<open>Object.entries(mapping)\<close> of its
  own properties in the order \<open>defineEnum\<close> walks them; an object has each key once.
  \<open>reverse\<close> is the \<open>Map\<close> the loop fills with \<open>reverse.set(value, name)\<close>: a later
  entry with the same value replaces an earlier one.
\<close>

record EnumDef =
  enum_type :: PrimitiveType
  enum_mapping :: "(string \<times> int) list"

definition reverse_set :: "string \<times> int \<Rightarrow> (int \<rightharpoonup> string) \<Rightarrow> (int \<rightharpoonup> string)" where
  "reverse_set e r = r(snd e \<mapsto> fst e)"

definition reverse :: "(string \<times> int) list \<Rightarrow> (int \<rightharpoonup> string)" where
  "reverse mapping = fold reverse_set mapping Map.empty"


text \<open>
  \<open>to(value)\<close>: a Number is returned as it is, before any lookup; anything else is looked
  up as a property key of the mapping, \<open>mapping[value]\<close>, which finds the mapping's own
  entries and, for other keys, what the object literal inherits; \<open>to\<close> throws when the
  lookup gives \<open>undefined\<close>.
\<close>

definition enum_to :: "host \<Rightarrow> EnumDef \<Rightarrow> jsval \<Rightarrow> error + jsval" where
  "enum_to h d v =
     (case v of
        JNum n \<Rightarrow> Inr (JNum n)
      | _ \<Rightarrow>
          (let mapped = (case map_of (enum_mapping d) (js_String h v) of
                           None \<Rightarrow> host_Object_prototype h (js_String h v)
                         | Some m \<Rightarrow> JNum m)
           in if mapped = JUndefined then Inl InvalidEnumValue else Inr mapped))"

definition enum_from :: "EnumDef \<Rightarrow> int \<Rightarrow> error + string" where
  "enum_from d v =
     (case reverse (enum_mapping d) v of
        None \<Rightarrow> Inl InvalidEnumValue
      | Some mapped \<Rightarrow> Inr mapped)"

section \<open>The FFI shim (ffi.ts)\<close>

definition toPointer :: "jsval \<Rightarrow> error + jsval" where
  "toPointer v = (if v = JNull then Inl ReceivedNullPointer else Inr v)"

text \<open>\<open>ptr(value)\<close>, the buffer given by its address.\<close>

definition ptr :: "host \<Rightarrow> int \<Rightarrow> error + jsval" where
  "ptr h buf =
     (case detectFfiRuntime h of
        Inl e \<Rightarrow> Inl e
      | Inr Bun \<Rightarrow>
          (case getBunFFI h of Inl e \<Rightarrow> Inl e | Inr ffi \<Rightarrow> toPointer (bun_ptr ffi buf))
      | Inr Deno \<Rightarrow>
          (case getDenoFFI h of
             Inl e \<Rightarrow> Inl e
           | Inr (up, view) \<Rightarrow>
               (let pointer = up_of up buf
                in if \<not> truthy pointer then Inl FailedToGetPointer else toPointer pointer)))"

definition toArrayBuffer :: "host \<Rightarrow> jsval \<Rightarrow> int \<Rightarrow> int option \<Rightarrow> error + byte list" where
  "toArrayBuffer h pointer byteOffset byteLength =
     (case detectFfiRuntime h of
        Inl e \<Rightarrow> Inl e
      | Inr Bun \<Rightarrow>
          (case getBunFFI h of
             Inl e \<Rightarrow> Inl e
           | Inr ffi \<Rightarrow> Inr (bun_toArrayBuffer ffi pointer byteOffset byteLength))
      | Inr Deno \<Rightarrow>
          (case getDenoFFI h of
             Inl e \<Rightarrow> Inl e
           | Inr (up, view) \<Rightarrow>
               (let targetPointer =
                      (case up_offset up of
                         Some offset \<Rightarrow> if byteOffset > 0 then offset pointer byteOffset else pointer
                       | None \<Rightarrow> pointer);
                    len = (case byteLength of None \<Rightarrow> 0 | Some l \<Rightarrow> l)
                in Inr (view targetPointer len))))"

text \<open>\<open>getDenoGlobal()?.UnsafePointer?.value\<close>, when it is a function.\<close>

definition pointerValue :: "host \<Rightarrow> (jsval \<Rightarrow> jsval) option" where
  "pointerValue h =
     (case host_Deno h of
        None \<Rightarrow> None
      | Some d \<Rightarrow> (case deno_UnsafePointer d of None \<Rightarrow> None | Some up \<Rightarrow> up_value up))"

definition pointerToBigInt :: "host \<Rightarrow> jsval \<Rightarrow> error + int" where
  "pointerToBigInt h pointer =
     (if nullish pointer then Inr 0
      else case pointer of
        JBig n \<Rightarrow> Inr n
      | JNum n \<Rightarrow> Inr n
      | _ \<Rightarrow>
          (case pointerValue h of
             None \<Rightarrow> Inl UnsupportedPointer
           | Some f \<Rightarrow>
               (case f pointer of
                  JBig n \<Rightarrow> Inr n
                | JNum n \<Rightarrow> Inr n
                | _ \<Rightarrow> Inl UnsupportedPointer)))"

subsection \<open>Symbol tables\<close>

datatype NativeType =
    N_void | N_bool | N_u8 | N_i8 | N_u16 | N_i16 | N_u32 | N_i32 | N_u64 | N_i64
  | N_f32 | N_f64 | N_ptr | N_pointer | N_buffer | N_usize

record CompatSymbolDefinition =
  sym_args :: "NativeType list option"
  sym_parameters :: "NativeType list option"
  sym_returns :: "NativeType option"
  sym_result :: "NativeType option"
  sym_nonblocking :: "bool option"

record bun_symbol =
  b_args :: "NativeType list"
  b_returns :: NativeType
  b_nonblocking :: "bool option"

record deno_symbol =
  d_parameters :: "NativeType list"
  d_result :: NativeType
  d_nonblocking :: "bool option"

datatype runtime_symbol = BunSymbol bun_symbol | DenoSymbol deno_symbol

definition normalizeSymbol :: "CompatSymbolDefinition \<Rightarrow> bun_symbol" where
  "normalizeSymbol symbol =
     \<lparr>b_args = (case sym_parameters symbol of
                  Some ps \<Rightarrow> ps
                | None \<Rightarrow> (case sym_args symbol of Some as \<Rightarrow> as | None \<Rightarrow> [])),
      b_returns = (case sym_result symbol of
                     Some r \<Rightarrow> r
                   | None \<Rightarrow> (case sym_returns symbol of Some r \<Rightarrow> r | None \<Rightarrow> N_void)),
      b_nonblocking = sym_nonblocking symbol\<rparr>"

definition toDenoType :: "NativeType \<Rightarrow> NativeType" where
  "toDenoType t = (if t = N_ptr then N_pointer else t)"

text \<open>
  A symbol table is the list \<open>Object.entries(symbols)\<close>; the loops write
  \<open>out[name]\<close> once for each entry.
\<close>

definition toBunSymbols ::
  "(string \<times> CompatSymbolDefinition) list \<Rightarrow> (string \<times> bun_symbol) list" where
  "toBunSymbols symbols = map (\<lambda>(name, symbol). (name, normalizeSymbol symbol)) symbols"

definition toDenoSymbols ::
  "(string \<times> CompatSymbolDefinition) list \<Rightarrow> (string \<times> deno_symbol) list" where
  "toDenoSymbols symbols =
     map (\<lambda>(name, symbol).
            (let normalized = normalizeSymbol symbol
             in (name, \<lparr>d_parameters = map toDenoType (b_args normalized),
                         d_result = toDenoType (b_returns normalized),
                         d_nonblocking = b_nonblocking normalized\<rparr>)))
         symbols"

definition normalizeSymbolsForRuntime ::
  "(string \<times> CompatSymbolDefinition) list \<Rightarrow> RuntimeKind \<Rightarrow> (string \<times> runtime_symbol) list" where
  "normalizeSymbolsForRuntime symbols runtime =
     (if runtime = Bun then map (\<lambda>(name, s). (name, BunSymbol s)) (toBunSymbols symbols)
      else map (\<lambda>(name, s). (name, DenoSymbol s)) (toDenoSymbols symbols))"

text \<open>
  The two shapes of one logical definition (argument types, return type, nonblocking
  flag), as the specification words them: the legacy shape \<open>{args, returns,
  nonblocking?}\<close> and the canonical shape \<open>{parameters, result, nonblocking?}\<close>.
\<close>

definition legacy_shape :: "NativeType list \<times> NativeType \<times> bool option \<Rightarrow> CompatSymbolDefinition" where
  "legacy_shape d =
     (case d of (as, r, nb) \<Rightarrow>
        \<lparr>sym_args = Some as, sym_parameters = None, sym_returns = Some r, sym_result = None,
         sym_nonblocking = nb\<rparr>)"

definition canonical_shape :: "NativeType list \<times> NativeType \<times> bool option \<Rightarrow> CompatSymbolDefinition" where
  "canonical_shape d =
     (case d of (as, r, nb) \<Rightarrow>
        \<lparr>sym_args = None, sym_parameters = Some as, sym_returns = None, sym_result = Some r,
         sym_nonblocking = nb\<rparr>)"

definition unalias :: "NativeType list \<times> NativeType \<times> bool option \<Rightarrow> NativeType list \<times> NativeType \<times> bool option" where
  "unalias d = (case d of (as, r, nb) \<Rightarrow> (map toDenoType as, toDenoType r, nb))"

definition in_shape ::
  "('d \<Rightarrow> CompatSymbolDefinition) \<Rightarrow> (string \<times> 'd) list \<Rightarrow> (string \<times> CompatSymbolDefinition) list" where
  "in_shape f table = map (\<lambda>(name, d). (name, f d)) table"

fun symbol_types :: "runtime_symbol \<Rightarrow> NativeType list" where
  "symbol_types (BunSymbol s) = b_returns s # b_args s"
| "symbol_types (DenoSymbol s) = d_result s # d_parameters s"

section \<open>Display width (runtime.ts)\<close>

text \<open>
  A string is the list of its code points, which is what \<open>for (const char of value)\<close>
  walks. The Unicode property classes that the regular expressions test,
  \<open>\p{Mark}\<close> and \<open>\p{Extended_Pictographic}\<close>, are tables of the JavaScript engine
  and parameters here.
\<close>

record unicode =
  is_Mark :: "nat \<Rightarrow> bool"
  is_Extended_Pictographic :: "nat \<Rightarrow> bool"

definition isFullWidthCodePoint :: "nat \<Rightarrow> bool" where
  "isFullWidthCodePoint codePoint =
     (codePoint \<ge> 0x1100 \<and>
      (codePoint \<le> 0x115f \<or>
       codePoint = 0x2329 \<or>
       codePoint = 0x232a \<or>
       (codePoint \<ge> 0x2e80 \<and> codePoint \<le> 0x3247 \<and> codePoint \<noteq> 0x303f) \<or>
       (codePoint \<ge> 0x3250 \<and> codePoint \<le> 0x4dbf) \<or>
       (codePoint \<ge> 0x4e00 \<and> codePoint \<le> 0xa4c6) \<or>
       (codePoint \<ge> 0xa960 \<and> codePoint \<le> 0xa97c) \<or>
       (codePoint \<ge> 0xac00 \<and> codePoint \<le> 0xd7a3) \<or>
       (codePoint \<ge> 0xf900 \<and> codePoint \<le> 0xfaff) \<or>
       (codePoint \<ge> 0xfe10 \<and> codePoint \<le> 0xfe19) \<or>
       (codePoint \<ge> 0xfe30 \<and> codePoint \<le> 0xfe6b) \<or>
       (codePoint \<ge> 0xff01 \<and> codePoint \<le> 0xff60) \<or>
       (codePoint \<ge> 0xffe0 \<and> codePoint \<le> 0xffe6) \<or>
       (codePoint \<ge> 0x1b000 \<and> codePoint \<le> 0x1b001) \<or>
       (codePoint \<ge> 0x1f200 \<and> codePoint \<le> 0x1f251) \<or>
       (codePoint \<ge> 0x20000 \<and> codePoint \<le> 0x3fffd)))"

text \<open>
  \<open>getCharWidth\<close> of a character given by its code point (\<open>codePointAt(0)\<close> is
  \<open>undefined\<close> for the empty string only, which the loop never passes).
\<close>

definition getCharWidth :: "unicode \<Rightarrow> nat \<Rightarrow> nat" where
  "getCharWidth u codePoint =
     (if codePoint \<le> 0x1f \<or> (codePoint \<ge> 0x7f \<and> codePoint \<le> 0x9f) then 0
      else if is_Mark u codePoint \<or> (0xFE00 \<le> codePoint \<and> codePoint \<le> 0xFE0F) then 0
      else if is_Extended_Pictographic u codePoint \<or> isFullWidthCodePoint codePoint then 2
      else 1)"

text \<open>\<open>bunStringWidth\<close> is \<open>Bun.stringWidth\<close> when the host has it.\<close>

definition stringWidth :: "(nat list \<Rightarrow> nat) option \<Rightarrow> unicode \<Rightarrow> nat list \<Rightarrow> nat" where
  "stringWidth bunStringWidth u val =
     (case bunStringWidth of
        Some f \<Rightarrow> f val
      | None \<Rightarrow> fold (\<lambda>char width. width + getCharWidth u char) val 0)"

section \<open>Struct layout: \<open>defineStruct\<close> (deno-ffi-structs.ts)\<close>

datatype FieldType =
    T_primitive PrimitiveType
  | T_char_ptr
  | T_enum EnumDef
  | T_array PrimitiveType

record FieldOptions =
  fo_optional :: "bool option"
  fo_default :: jsval
  fo_lengthOf :: "string option"
  fo_packTransform :: "(jsval \<Rightarrow> jsval) option"
  fo_unpackTransform :: "(jsval \<Rightarrow> jsval) option"

type_synonym FieldDef = "string \<times> FieldType \<times> FieldOptions option"

datatype Kind = K_primitive | K_char_ptr | K_enum | K_array

record LayoutEntry =
  le_name :: string
  le_kind :: Kind
  le_type :: PrimitiveType
  le_offset :: int
  le_size :: int
  le_optional :: bool
  le_defaultValue :: jsval
  le_lengthOf :: "string option"
  le_packTransform :: "(jsval \<Rightarrow> jsval) option"
  le_unpackTransform :: "(jsval \<Rightarrow> jsval) option"
  le_enumDef :: "EnumDef option"

record StructDefOptions =
  so_reduceValue :: "(js_object \<Rightarrow> js_object) option"

definition getPointerSize :: "host \<Rightarrow> int" where
  "getPointerSize h =
     (let procArch = host_process_arch h
      in if procArch = Some ''x64'' \<or> procArch = Some ''arm64'' then 8
         else let denoArch = (case host_Deno h of None \<Rightarrow> None | Some d \<Rightarrow> deno_build_arch d)
              in if denoArch = Some ''x86_64'' \<or> denoArch = Some ''aarch64'' then 8 else 4)"

fun primitiveSizes :: "int \<Rightarrow> PrimitiveType \<Rightarrow> int" where
  "primitiveSizes pointerSize U8 = 1"
| "primitiveSizes pointerSize Bool_u8 = 1"
| "primitiveSizes pointerSize Bool_u32 = 4"
| "primitiveSizes pointerSize U16 = 2"
| "primitiveSizes pointerSize I16 = 2"
| "primitiveSizes pointerSize U32 = 4"
| "primitiveSizes pointerSize I32 = 4"
| "primitiveSizes pointerSize U64 = 8"
| "primitiveSizes pointerSize F32 = 4"
| "primitiveSizes pointerSize F64 = 8"
| "primitiveSizes pointerSize Pointer = pointerSize"

text \<open>
  \<open>(offset + align - 1) & ~(align - 1)\<close>: the bitwise operators of JavaScript work on
  the operands converted to 32-bit integers and give a signed 32-bit integer.
\<close>

definition alignOffset :: "int \<Rightarrow> int \<Rightarrow> int" where
  "alignOffset offset align =
     sint ((word_of_int (offset + align - 1) :: 32 word) AND NOT (word_of_int (align - 1)))"

definition no_options :: FieldOptions where
  "no_options =
     \<lparr>fo_optional = None, fo_default = JUndefined, fo_lengthOf = None,
      fo_packTransform = None, fo_unpackTransform = None\<rparr>"

text \<open>
  One turn of the loop over the fields: \<open>layout_entry\<close> is the entry that the turn
  pushes when it starts at the running offset, and the turn leaves the running offset
  behind that entry.
\<close>

definition layout_entry :: "int \<Rightarrow> FieldDef \<Rightarrow> int \<Rightarrow> LayoutEntry" where
  "layout_entry pointerSize field offset =
     (case field of (name, rawType, rawOptions) \<Rightarrow>
        (let fieldOptions = (case rawOptions of None \<Rightarrow> no_options | Some opts \<Rightarrow> opts);
             kts = (case rawType of
                      T_array t \<Rightarrow> (K_array, t, pointerSize, None)
                    | T_char_ptr \<Rightarrow> (K_char_ptr, Pointer, pointerSize, None)
                    | T_primitive t \<Rightarrow> (K_primitive, t, primitiveSizes pointerSize t, None)
                    | T_enum d \<Rightarrow>
                        (K_enum, enum_type d, primitiveSizes pointerSize (enum_type d), Some d));
             kind = fst kts;
             type = fst (snd kts);
             size = fst (snd (snd kts));
             enumDef = snd (snd (snd kts));
             align = max 1 (min size pointerSize)
         in \<lparr>le_name = name, le_kind = kind, le_type = type,
             le_offset = alignOffset offset align,
             le_size = size,
             le_optional = (case fo_optional fieldOptions of None \<Rightarrow> False | Some b \<Rightarrow> b),
             le_defaultValue = fo_default fieldOptions,
             le_lengthOf = fo_lengthOf fieldOptions,
             le_packTransform = fo_packTransform fieldOptions,
             le_unpackTransform = fo_unpackTransform fieldOptions,
             le_enumDef = enumDef\<rparr>))"

definition layout_step :: "int \<Rightarrow> FieldDef \<Rightarrow> int \<times> LayoutEntry list \<Rightarrow> int \<times> LayoutEntry list" where
  "layout_step pointerSize field st =
     (case st of (offset, layout) \<Rightarrow>
        (let entry = layout_entry pointerSize field offset
         in (le_offset entry + le_size entry, layout @ [entry])))"

text \<open>
  \<open>entry.lengthOf\<close> used as a condition: \<open>undefined\<close> and the empty string are falsy.
\<close>

definition has_lengthOf :: "LayoutEntry \<Rightarrow> bool" where
  "has_lengthOf entry = (case le_lengthOf entry of None \<Rightarrow> False | Some s \<Rightarrow> s \<noteq> [])"

text \<open>\<open>byName\<close>: a \<open>Map\<close> built from the layout; of two entries of one name the later stays.\<close>

definition byName :: "LayoutEntry list \<Rightarrow> string \<Rightarrow> LayoutEntry option" where
  "byName layout = map_of (rev (map (\<lambda>entry. (le_name entry, entry)) layout))"

definition inferred_step :: "LayoutEntry \<Rightarrow> (string \<rightharpoonup> string) \<Rightarrow> (string \<rightharpoonup> string)" where
  "inferred_step entry m =
     (if \<not> has_lengthOf entry then m
      else if le_kind entry = K_primitive \<or> le_kind entry = K_enum
           then m(the (le_lengthOf entry) \<mapsto> le_name entry)
           else m)"

definition inferredLengthFieldFor :: "LayoutEntry list \<Rightarrow> (string \<rightharpoonup> string)" where
  "inferredLengthFieldFor layout = fold inferred_step layout Map.empty"

record StructDef =
  sd_size :: int
  sd_layout :: "LayoutEntry list"
  sd_reduceValue :: "(js_object \<Rightarrow> js_object) option"

definition defineStruct :: "host \<Rightarrow> FieldDef list \<Rightarrow> StructDefOptions \<Rightarrow> StructDef" where
  "defineStruct h fieldDefs options =
     (let pointerSize = getPointerSize h;
          st = fold (layout_step pointerSize) fieldDefs (0, [])
      in \<lparr>sd_size = alignOffset (fst st) pointerSize,
          sd_layout = snd st,
          sd_reduceValue = so_reduceValue options\<rparr>)"

section \<open>Reading and writing scalars: \<open>DataView\<close>, \<open>writePrimitive\<close>, \<open>readPrimitive\<close>\<close>

text \<open>
  An \<open>ArrayBuffer\<close> under a \<open>DataView\<close> is the list of its bytes. \<open>le_bytes n v\<close> is
  the two's-complement value \<open>v mod 2 ^ (8 n)\<close> in \<open>n\<close> bytes, least significant byte
  first; \<open>le_val\<close> reads such bytes back as an unsigned number.
\<close>

fun le_bytes :: "nat \<Rightarrow> int \<Rightarrow> byte list" where
  "le_bytes 0 v = []"
| "le_bytes (Suc n) v = word_of_int v # le_bytes n (v div 256)"

fun le_val :: "byte list \<Rightarrow> int" where
  "le_val [] = 0"
| "le_val (b # bs) = uint b + 256 * le_val bs"

definition in_bounds :: "byte list \<Rightarrow> int \<Rightarrow> nat \<Rightarrow> bool" where
  "in_bounds view offset n = (0 \<le> offset \<and> offset + int n \<le> int (length view))"

definition splice :: "byte list \<Rightarrow> int \<Rightarrow> byte list \<Rightarrow> byte list" where
  "splice view offset bs = take (nat offset) view @ bs @ drop (nat offset + length bs) view"

definition slice :: "byte list \<Rightarrow> int \<Rightarrow> nat \<Rightarrow> byte list" where
  "slice view offset n = take n (drop (nat offset) view)"

text \<open>
  The setters and getters of \<open>DataView\<close> for an integer of \<open>n\<close> bytes, with their
  \<open>littleEndian\<close> argument: the bytes are stored least significant first when it is
  true and most significant first otherwise; an access outside the buffer throws a
  RangeError. \<open>setInt\<close> and \<open>setUint\<close> store the same bytes.
\<close>

definition setUint :: "nat \<Rightarrow> byte list \<Rightarrow> int \<Rightarrow> int \<Rightarrow> bool \<Rightarrow> error + byte list" where
  "setUint n view offset v littleEndian =
     (if in_bounds view offset n
      then Inr (splice view offset (if littleEndian then le_bytes n v else rev (le_bytes n v)))
      else Inl RangeError)"

definition setInt :: "nat \<Rightarrow> byte list \<Rightarrow> int \<Rightarrow> int \<Rightarrow> bool \<Rightarrow> error + byte list" where
  "setInt n view offset v littleEndian = setUint n view offset v littleEndian"

definition getUint :: "nat \<Rightarrow> byte list \<Rightarrow> int \<Rightarrow> bool \<Rightarrow> error + int" where
  "getUint n view offset littleEndian =
     (if in_bounds view offset n
      then Inr (le_val (if littleEndian then slice view offset n else rev (slice view offset n)))
      else Inl RangeError)"

definition getInt :: "nat \<Rightarrow> byte list \<Rightarrow> int \<Rightarrow> bool \<Rightarrow> error + int" where
  "getInt n view offset littleEndian =
     (case getUint n view offset littleEndian of
        Inl e \<Rightarrow> Inl e
      | Inr u \<Rightarrow> Inr (if u \<ge> 2 ^ (8 * n - 1) then u - 2 ^ (8 * n) else u))"

definition writePrimitive ::
  "host \<Rightarrow> byte list \<Rightarrow> PrimitiveType \<Rightarrow> int \<Rightarrow> jsval \<Rightarrow> error + byte list" where
  "writePrimitive h view type offset v =
     (case type of
        U8 \<Rightarrow> setUint 1 view offset (nan_to_0 (number_or_0 h v)) False
      | Bool_u8 \<Rightarrow> setUint 1 view offset (if truthy v then 1 else 0) False
      | Bool_u32 \<Rightarrow> setUint 4 view offset (if truthy v then 1 else 0) True
      | U16 \<Rightarrow> setUint 2 view offset (nan_to_0 (number_or_0 h v)) True
      | I16 \<Rightarrow> setInt 2 view offset (nan_to_0 (number_or_0 h v)) True
      | U32 \<Rightarrow> setUint 4 view offset (nan_to_0 (number_or_0 h v)) True
      | I32 \<Rightarrow> setInt 4 view offset (nan_to_0 (number_or_0 h v)) True
      | U64 \<Rightarrow>
          (case js_BigInt h (if nullish v then JNum 0 else v) of
             Inl e \<Rightarrow> Inl e
           | Inr b \<Rightarrow> setUint 8 view offset b True)
      | F32 \<Rightarrow> setUint 4 view offset (uint (host_float32_bits h (number_or_0 h v))) True
      | F64 \<Rightarrow> setUint 8 view offset (uint (host_float64_bits h (number_or_0 h v))) True
      | Pointer \<Rightarrow>
          (case pointerToBigInt h v of
             Inl e \<Rightarrow> Inl e
           | Inr pointer \<Rightarrow>
               if getPointerSize h = 8 then setUint 8 view offset pointer True
               else setUint 4 view offset (round_double pointer) True))"

definition readPrimitive :: "host \<Rightarrow> byte list \<Rightarrow> PrimitiveType \<Rightarrow> int \<Rightarrow> error + jsval" where
  "readPrimitive h view type offset =
     (case type of
        U8 \<Rightarrow> map_sum id JNum (getUint 1 view offset False)
      | Bool_u8 \<Rightarrow> map_sum id (\<lambda>n. JBool (n \<noteq> 0)) (getUint 1 view offset False)
      | Bool_u32 \<Rightarrow> map_sum id (\<lambda>n. JBool (n \<noteq> 0)) (getUint 4 view offset True)
      | U16 \<Rightarrow> map_sum id JNum (getUint 2 view offset True)
      | I16 \<Rightarrow> map_sum id JNum (getInt 2 view offset True)
      | U32 \<Rightarrow> map_sum id JNum (getUint 4 view offset True)
      | I32 \<Rightarrow> map_sum id JNum (getInt 4 view offset True)
      | U64 \<Rightarrow> map_sum id JBig (getUint 8 view offset True)
      | F32 \<Rightarrow> map_sum id (\<lambda>n. host_float32_value h (word_of_int n)) (getUint 4 view offset True)
      | F64 \<Rightarrow> map_sum id (\<lambda>n. host_float64_value h (word_of_int n)) (getUint 8 view offset True)
      | Pointer \<Rightarrow>
          (if getPointerSize h = 8 then map_sum id JBig (getUint 8 view offset True)
           else map_sum id JBig (getUint 4 view offset True)))"

section \<open>\<open>pack\<close> and \<open>unpack\<close>\<close>

definition ebind :: "error + 'a \<Rightarrow> ('a \<Rightarrow> error + 'b) \<Rightarrow> error + 'b" where
  "ebind r f = (case r of Inl e \<Rightarrow> Inl e | Inr x \<Rightarrow> f x)"

text \<open>
  The state of one \<open>pack\<close>: the struct's buffer and the list \<open>allocated\<close> of payload
  buffers, each an address with its bytes. \<open>addr k\<close> is the address at which the host
  has placed the payload buffer that becomes the \<open>k\<close>-th of \<open>allocated\<close>.
\<close>

type_synonym pack_state = "byte list \<times> (int \<times> byte list) list"

text \<open>
  The write of the length that ends the \<open>char_ptr\<close> and the \<open>array\<close> case:
  \<open>if (entry.lengthOf) { const lenField = byName.get(entry.lengthOf); if (lenField) ... }\<close>.
\<close>

definition write_length ::
  "host \<Rightarrow> LayoutEntry list \<Rightarrow> LayoutEntry \<Rightarrow> byte list \<Rightarrow> int \<Rightarrow> error + byte list" where
  "write_length h layout entry view n =
     (if has_lengthOf entry
      then (case byName layout (the (le_lengthOf entry)) of
              None \<Rightarrow> Inr view
            | Some lenField \<Rightarrow> writePrimitive h view (le_type lenField) (le_offset lenField) (JNum n))
      else Inr view)"

text \<open>The loop that writes the elements of an array into its own buffer.\<close>

fun write_elements ::
  "host \<Rightarrow> PrimitiveType \<Rightarrow> int \<Rightarrow> jsval list \<Rightarrow> int \<Rightarrow> byte list \<Rightarrow> error + byte list" where
  "write_elements h type elementSize [] i arrView = Inr arrView"
| "write_elements h type elementSize (v # vs) i arrView =
     ebind (writePrimitive h arrView type (i * elementSize) v)
       (write_elements h type elementSize vs (i + 1))"

text \<open>
  \<open>fieldValue == null ? "" : String(fieldValue)\<close> and
  \<open>Array.isArray(fieldValue) ? fieldValue : []\<close>: the text of a string field and the
  elements of an array field.
\<close>

definition text_of :: "host \<Rightarrow> jsval \<Rightarrow> string" where
  "text_of h fieldValue = (if nullish fieldValue then [] else js_String h fieldValue)"

definition values_of :: "jsval \<Rightarrow> jsval list" where
  "values_of fieldValue = (case fieldValue of JArr xs \<Rightarrow> xs | _ \<Rightarrow> [])"

text \<open>The value that \<open>pack\<close> settles on for a field, before the \<open>switch\<close>.\<close>

definition field_value :: "host \<Rightarrow> js_object \<Rightarrow> LayoutEntry \<Rightarrow> jsval" where
  "field_value h input entry =
     (let fieldValue0 = get_prop h input (le_name entry);
          fieldValue1 = (if fieldValue0 = JUndefined \<and> le_defaultValue entry \<noteq> JUndefined
                         then le_defaultValue entry else fieldValue0);
          fieldValue2 = (case le_packTransform entry of
                           None \<Rightarrow> fieldValue1
                         | Some f \<Rightarrow> f fieldValue1);
          fieldValue3 =
            (if (le_kind entry = K_primitive \<or> le_kind entry = K_enum) \<and> has_lengthOf entry
             then (case get_prop h input (the (le_lengthOf entry)) of
                     JStr s \<Rightarrow> JNum (int (length (host_TextEncoder_encode h s)))
                   | JArr xs \<Rightarrow> JNum (int (length xs))
                   | JBuffer bs \<Rightarrow> JNum (int (length bs))
                   | JView bs \<Rightarrow> JNum (int (length bs))
                   | _ \<Rightarrow> fieldValue2)
             else fieldValue2)
      in if fieldValue3 = JUndefined \<and> le_optional entry then JNull else fieldValue3)"

text \<open>
  Storing a payload buffer: nothing is allocated for an empty one and the null pointer
  is written; otherwise the buffer joins \<open>allocated\<close> and its pointer is written.
\<close>

definition write_payload ::
  "host \<Rightarrow> (nat \<Rightarrow> int) \<Rightarrow> LayoutEntry \<Rightarrow> byte list \<Rightarrow> pack_state \<Rightarrow> error + pack_state" where
  "write_payload h addr entry payload st =
     (case st of (view, allocated) \<Rightarrow>
        if length payload = 0
        then ebind (writePrimitive h view Pointer (le_offset entry) (JNum 0))
               (\<lambda>view1. Inr (view1, allocated))
        else ebind (ptr h (addr (length allocated)))
               (\<lambda>p. ebind (writePrimitive h view Pointer (le_offset entry) p)
                  (\<lambda>view1. Inr (view1, allocated @ [(addr (length allocated), payload)]))))"

definition pack_entry ::
  "host \<Rightarrow> LayoutEntry list \<Rightarrow> (nat \<Rightarrow> int) \<Rightarrow> js_object \<Rightarrow> LayoutEntry \<Rightarrow> pack_state
     \<Rightarrow> error + pack_state" where
  "pack_entry h layout addr input entry st =
     (let fieldValue = field_value h input entry
      in case le_kind entry of
           K_primitive \<Rightarrow>
             ebind (writePrimitive h (fst st) (le_type entry) (le_offset entry) fieldValue)
               (\<lambda>view1. Inr (view1, snd st))
         | K_enum \<Rightarrow>
             (case le_enumDef entry of
                None \<Rightarrow> Inl TypeError
              | Some d \<Rightarrow>
                  ebind (enum_to h d fieldValue)
                    (\<lambda>mapped. ebind (writePrimitive h (fst st) (le_type entry) (le_offset entry) mapped)
                       (\<lambda>view1. Inr (view1, snd st))))
         | K_char_ptr \<Rightarrow>
             (let encoded = host_TextEncoder_encode h (text_of h fieldValue)
              in ebind (write_payload h addr entry encoded st)
                   (\<lambda>st1. ebind (write_length h layout entry (fst st1) (int (length encoded)))
                      (\<lambda>view2. Inr (view2, snd st1))))
         | K_array \<Rightarrow>
             (let vals = values_of fieldValue;
                  elementSize = primitiveSizes (getPointerSize h) (le_type entry)
              in ebind (write_elements h (le_type entry) elementSize vals 0
                          (replicate (nat (int (length vals) * elementSize)) 0))
                   (\<lambda>arrBuf. ebind (write_payload h addr entry arrBuf st)
                      (\<lambda>st1. ebind (write_length h layout entry (fst st1) (int (length vals)))
                         (\<lambda>view2. Inr (view2, snd st1))))))"

fun pack_loop ::
  "host \<Rightarrow> LayoutEntry list \<Rightarrow> (nat \<Rightarrow> int) \<Rightarrow> js_object \<Rightarrow> LayoutEntry list \<Rightarrow> pack_state
     \<Rightarrow> error + pack_state" where
  "pack_loop h layout addr input [] st = Inr st"
| "pack_loop h layout addr input (entry # entries) st =
     ebind (pack_entry h layout addr input entry st) (pack_loop h layout addr input entries)"

text \<open>
  \<open>pack(value)\<close> returns the buffer, of \<open>size\<close> zero bytes at first, with the payload
  buffers as its \<open>_refs\<close>. \<open>new ArrayBuffer(size)\<close> throws a RangeError for a
  negative size.
\<close>

definition pack :: "host \<Rightarrow> StructDef \<Rightarrow> (nat \<Rightarrow> int) \<Rightarrow> js_object \<Rightarrow> error + pack_state" where
  "pack h sd addr val =
     (let input = (case sd_reduceValue sd of None \<Rightarrow> val | Some reduceValue \<Rightarrow> reduceValue val)
      in if sd_size sd < 0 then Inl RangeError
         else pack_loop h (sd_layout sd) addr input (sd_layout sd)
                (replicate (nat (sd_size sd)) 0, []))"

text \<open>
  \<open>getLengthFieldValue\<close>; \<open>None\<close> is NaN. The field name is \<open>undefined\<close> (\<open>None\<close>)
  or a string, and the empty string is falsy too.
\<close>

definition getLengthFieldValue ::
  "host \<Rightarrow> LayoutEntry list \<Rightarrow> byte list \<Rightarrow> js_object \<Rightarrow> string option \<Rightarrow> error + int option" where
  "getLengthFieldValue h layout view out fieldName =
     (case fieldName of
        None \<Rightarrow> Inr (Some 0)
      | Some name \<Rightarrow>
          if name = [] then Inr (Some 0)
          else let existing = get_prop h out name
               in if existing \<noteq> JUndefined then Inr (js_Number h existing)
                  else (case byName layout name of
                          None \<Rightarrow> Inr (Some 0)
                        | Some field \<Rightarrow>
                            map_sum id (js_Number h)
                              (readPrimitive h view (le_type field) (le_offset field))))"

text \<open>The loop that reads the elements of an array out of its buffer.\<close>

fun read_elements ::
  "host \<Rightarrow> PrimitiveType \<Rightarrow> int \<Rightarrow> byte list \<Rightarrow> nat \<Rightarrow> int \<Rightarrow> error + jsval list" where
  "read_elements h type elementSize arrView 0 i = Inr []"
| "read_elements h type elementSize arrView (Suc k) i =
     ebind (readPrimitive h arrView type (i * elementSize))
       (\<lambda>item. ebind (read_elements h type elementSize arrView k (i + 1))
          (\<lambda>items. Inr (item # items)))"

text \<open>
  \<open>len <= 0\<close> is false of NaN. A NaN length reaches the host as a length that is not
  given (\<open>None\<close>), and the element loop does not run for it.
\<close>

definition len_le_0 :: "int option \<Rightarrow> bool" where
  "len_le_0 len = (case len of None \<Rightarrow> False | Some n \<Rightarrow> n \<le> 0)"

text \<open>\<open>entry.lengthOf ?? inferredLengthFieldFor.get(entry.name)\<close>\<close>

definition length_field :: "LayoutEntry list \<Rightarrow> LayoutEntry \<Rightarrow> string option" where
  "length_field layout entry =
     (case le_lengthOf entry of
        None \<Rightarrow> inferredLengthFieldFor layout (le_name entry)
      | Some l \<Rightarrow> Some l)"

text \<open>The \<open>switch\<close> of \<open>unpack\<close>: the value decoded for one entry.\<close>

definition decode_entry ::
  "host \<Rightarrow> LayoutEntry list \<Rightarrow> byte list \<Rightarrow> LayoutEntry \<Rightarrow> js_object \<Rightarrow> error + jsval" where
  "decode_entry h layout view entry out =
     (case le_kind entry of
        K_primitive \<Rightarrow> readPrimitive h view (le_type entry) (le_offset entry)
      | K_enum \<Rightarrow>
          ebind (readPrimitive h view (le_type entry) (le_offset entry))
            (\<lambda>raw. case le_enumDef entry of
                      None \<Rightarrow> Inl TypeError
                    | Some d \<Rightarrow>
                        (case js_Number h raw of
                           None \<Rightarrow> Inl InvalidEnumValue
                         | Some n \<Rightarrow> map_sum id JStr (enum_from d n)))
      | K_char_ptr \<Rightarrow>
          ebind (readPrimitive h view Pointer (le_offset entry))
            (\<lambda>pointer. ebind (getLengthFieldValue h layout view out (length_field layout entry))
               (\<lambda>len. if \<not> truthy pointer \<or> len_le_0 len then Inr (JStr [])
                       else map_sum id (\<lambda>bytes. JStr (host_TextDecoder_decode h bytes))
                              (toArrayBuffer h pointer 0 len)))
      | K_array \<Rightarrow>
          ebind (readPrimitive h view Pointer (le_offset entry))
            (\<lambda>pointer. ebind (getLengthFieldValue h layout view out (length_field layout entry))
               (\<lambda>len. if \<not> truthy pointer \<or> len_le_0 len then Inr (JArr [])
                       else let elementSize = primitiveSizes (getPointerSize h) (le_type entry)
                            in ebind (toArrayBuffer h pointer 0
                                        (map_option (\<lambda>n. n * elementSize) len))
                                 (\<lambda>arrView.
                                    map_sum id JArr
                                      (read_elements h (le_type entry) elementSize arrView
                                         (nat (nan_to_0 len)) 0)))))"

text \<open>One turn of the loop of \<open>unpack\<close>: decode, transform, store under the name.\<close>

definition unpack_entry ::
  "host \<Rightarrow> LayoutEntry list \<Rightarrow> byte list \<Rightarrow> LayoutEntry \<Rightarrow> js_object \<Rightarrow> error + js_object" where
  "unpack_entry h layout view entry out =
     ebind (decode_entry h layout view entry out)
       (\<lambda>v. Inr (set_prop out (le_name entry)
                    (case le_unpackTransform entry of None \<Rightarrow> v | Some f \<Rightarrow> f v)))"

fun unpack_loop ::
  "host \<Rightarrow> LayoutEntry list \<Rightarrow> byte list \<Rightarrow> LayoutEntry list \<Rightarrow> js_object \<Rightarrow> error + js_object" where
  "unpack_loop h layout view [] out = Inr out"
| "unpack_loop h layout view (entry # entries) out =
     ebind (unpack_entry h layout view entry out) (unpack_loop h layout view entries)"

definition unpack :: "host \<Rightarrow> StructDef \<Rightarrow> byte list \<Rightarrow> error + js_object" where
  "unpack h sd buffer = unpack_loop h (sd_layout sd) buffer (sd_layout sd) empty_object"

section \<open>Well-formed layouts\<close>

text \<open>
  What \<open>defineStruct\<close> guarantees of a layout in which no 32-bit conversion has wrapped
  (no offset is negative): every entry has the size of what is stored in it, and the
  slots follow one another without overlap between two bounds.
\<close>

definition entry_ok :: "int \<Rightarrow> LayoutEntry \<Rightarrow> bool" where
  "entry_ok pointerSize e =
     (case le_kind e of
        K_primitive \<Rightarrow> le_size e = primitiveSizes pointerSize (le_type e)
      | K_enum \<Rightarrow>
          le_size e = primitiveSizes pointerSize (le_type e)
          \<and> (case le_enumDef e of None \<Rightarrow> False | Some d \<Rightarrow> enum_type d = le_type e)
      | K_char_ptr \<Rightarrow> le_size e = pointerSize \<and> le_type e = Pointer
      | K_array \<Rightarrow> le_size e = pointerSize)"

fun slots_ok :: "int \<Rightarrow> LayoutEntry list \<Rightarrow> int \<Rightarrow> bool" where
  "slots_ok lo [] hi = (lo \<le> hi)"
| "slots_ok lo (e # es) hi =
     (lo \<le> le_offset e \<and> 0 < le_size e \<and> slots_ok (le_offset e + le_size e) es hi)"

text \<open>The number of bytes that a scalar of a type takes, and the byte ranges that one turn
  of the loop of \<open>pack\<close> writes: the entry's own slot and, for a string or array entry
  that names a length field, the bytes of that field's type at that field's offset.\<close>

definition psize :: "host \<Rightarrow> PrimitiveType \<Rightarrow> nat" where
  "psize h t = nat (primitiveSizes (getPointerSize h) t)"

definition write_ranges :: "host \<Rightarrow> LayoutEntry list \<Rightarrow> LayoutEntry \<Rightarrow> (int \<times> nat) list" where
  "write_ranges h layout entry =
     (if le_kind entry = K_primitive \<or> le_kind entry = K_enum
      then [(le_offset entry, psize h (le_type entry))]
      else (le_offset entry, psize h Pointer) #
           (if has_lengthOf entry
            then (case byName layout (the (le_lengthOf entry)) of
                    None \<Rightarrow> []
                  | Some lenField \<Rightarrow> [(le_offset lenField, psize h (le_type lenField))])
            else []))"

definition apart :: "int \<times> nat \<Rightarrow> int \<times> nat \<Rightarrow> bool" where
  "apart r1 r2 = (fst r1 + int (snd r1) \<le> fst r2 \<or> fst r2 + int (snd r2) \<le> fst r1)"

section \<open>What a scalar slot holds\<close>

text \<open>
  \<open>stored h t v\<close> is the value that \<open>readPrimitive\<close> gives at a place where
  \<open>writePrimitive\<close> has written \<open>v\<close> with the type \<open>t\<close> (lemma \<open>write_read\<close>): an
  integer type keeps the Number modulo its width, a boolean type the truth of the
  value, \<open>u64\<close> the BigInt modulo \<open>2 ^ 64\<close>, a float type what the IEEE format keeps,
  a pointer the address.
\<close>

definition to_signed :: "nat \<Rightarrow> int \<Rightarrow> int" where
  "to_signed bits x = (let u = x mod 2 ^ bits in if u \<ge> 2 ^ (bits - 1) then u - 2 ^ bits else u)"

definition stored :: "host \<Rightarrow> PrimitiveType \<Rightarrow> jsval \<Rightarrow> jsval" where
  "stored h t v =
     (case t of
        U8 \<Rightarrow> JNum (nan_to_0 (number_or_0 h v) mod 2 ^ 8)
      | Bool_u8 \<Rightarrow> JBool (truthy v)
      | Bool_u32 \<Rightarrow> JBool (truthy v)
      | U16 \<Rightarrow> JNum (nan_to_0 (number_or_0 h v) mod 2 ^ 16)
      | I16 \<Rightarrow> JNum (to_signed 16 (nan_to_0 (number_or_0 h v)))
      | U32 \<Rightarrow> JNum (nan_to_0 (number_or_0 h v) mod 2 ^ 32)
      | I32 \<Rightarrow> JNum (to_signed 32 (nan_to_0 (number_or_0 h v)))
      | U64 \<Rightarrow>
          (case js_BigInt h (if nullish v then JNum 0 else v) of
             Inl e \<Rightarrow> JUndefined
           | Inr b \<Rightarrow> JBig (b mod 2 ^ 64))
      | F32 \<Rightarrow> host_float32_value h (host_float32_bits h (number_or_0 h v))
      | F64 \<Rightarrow> host_float64_value h (host_float64_bits h (number_or_0 h v))
      | Pointer \<Rightarrow>
          (case pointerToBigInt h v of
             Inl e \<Rightarrow> JUndefined
           | Inr pointer \<Rightarrow>
               if getPointerSize h = 8 then JBig (pointer mod 2 ^ 64)
               else JBig (round_double pointer mod 2 ^ 32)))"


section \<open>What \<open>pack\<close> leaves in a length field\<close>

text \<open>
  \<open>payload_length\<close> is the length that the turn of a string or array field writes into
  the length field it names: the number of bytes of the encoded text, or the number of
  elements. \<open>names_length X L\<close> says that the string or array field \<open>X\<close> names the field
  \<open>L\<close> as its length field (\<open>lengthOf\<close> on \<open>X\<close>). \<open>last_write\<close> is the last value that
  the loop of \<open>pack\<close> writes into the slot of a primitive field \<open>L\<close>: at the turn of
  \<open>L\<close> the value settled for \<open>L\<close>, at the turn of a field that names \<open>L\<close> that field's
  length.
\<close>

definition payload_length :: "host \<Rightarrow> js_object \<Rightarrow> LayoutEntry \<Rightarrow> int" where
  "payload_length h input X =
     (if le_kind X = K_char_ptr
      then int (length (host_TextEncoder_encode h (text_of h (field_value h input X))))
      else int (length (values_of (field_value h input X))))"




section \<open>Values that conform to a struct\<close>









section \<open>Sample hosts and inputs\<close>

text \<open>
  A sample engine. Its \<open>Object.prototype\<close> has the members of the standard one, each an
  object of its own; its encoder and decoder are those of ASCII text, the decoder
  dropping a leading byte-order mark; its float formats know 0 and 1.
\<close>

definition sample_Object_prototype :: "string \<Rightarrow> jsval" where
  "sample_Object_prototype key =
     (case map_of
        [(''constructor'', JObj 1), (''toString'', JObj 2), (''toLocaleString'', JObj 3),
         (''valueOf'', JObj 4), (''hasOwnProperty'', JObj 5), (''isPrototypeOf'', JObj 6),
         (''propertyIsEnumerable'', JObj 7), (''__proto__'', JObj 0),
         (''__defineGetter__'', JObj 8), (''__defineSetter__'', JObj 9),
         (''__lookupGetter__'', JObj 10), (''__lookupSetter__'', JObj 11)] key of
        None \<Rightarrow> JUndefined
      | Some v \<Rightarrow> v)"

definition sample_encode :: "string \<Rightarrow> byte list" where
  "sample_encode s = map (\<lambda>c. word_of_nat (of_char c)) s"

definition sample_decode :: "byte list \<Rightarrow> string" where
  "sample_decode bs =
     map (\<lambda>b. char_of (unat b)) (if take 3 bs = [0xEF, 0xBB, 0xBF] then drop 3 bs else bs)"

definition sample_engine :: host where
  "sample_engine =
     \<lparr>host_Bun_FFI = None,
      host_Deno = None,
      host_process_arch = None,
      host_Object_prototype = sample_Object_prototype,
      host_getProperty = (\<lambda>v key. JUndefined),
      host_TextEncoder_encode = sample_encode,
      host_TextDecoder_decode = sample_decode,
      host_NumberToString = string_of_int,
      host_StringToNumber = (\<lambda>s. None),
      host_StringToBigInt = (\<lambda>s. None),
      host_ObjectToString = (\<lambda>v. ''[object Object]''),
      host_ObjectToNumber = (\<lambda>v. None),
      host_ObjectToBigInt = (\<lambda>v. None),
      host_float32_bits = (\<lambda>n. if n = Some 1 then 0x3F800000 else 0),
      host_float64_bits = (\<lambda>n. if n = Some 1 then 0x3FF0000000000000 else 0),
      host_float32_value = (\<lambda>w. if w = 0x3F800000 then JNum 1 else JNum 0),
      host_float64_value = (\<lambda>w. if w = 0x3FF0000000000000 then JNum 1 else JNum 0)\<rparr>"

text \<open>
  A Deno host whose \<open>UnsafePointer\<close> has no \<open>offset\<close>; the byte at address \<open>a\<close> of
  its memory is \<open>a mod 256\<close>, and a pointer is the BigInt of its address.
\<close>

definition plain_view :: "jsval \<Rightarrow> int \<Rightarrow> byte list" where
  "plain_view p len =
     (case p of JBig a \<Rightarrow> map (\<lambda>i. word_of_int (a + int i)) [0..<nat len] | _ \<Rightarrow> [])"

definition deno_without_offset :: host where
  "deno_without_offset =
     sample_engine
       \<lparr>host_Deno := Some \<lparr>deno_dlopen = True,
                           deno_UnsafePointer =
                             Some \<lparr>up_of = JBig, up_offset = None, up_value = Some (\<lambda>p. p)\<rparr>,
                           deno_UnsafePointerView = Some plain_view,
                           deno_UnsafeCallback = True,
                           deno_build_arch = Some ''x86_64''\<rparr>\<rparr>"

text \<open>
  The same host with an \<open>UnsafePointer.offset\<close> that adds to the address, and a Bun
  host over the same memory, whose \<open>toArrayBuffer\<close> reads at the pointer plus the
  offset.
\<close>

definition offset_pointer :: "jsval \<Rightarrow> int \<Rightarrow> jsval" where
  "offset_pointer p k = (case p of JBig a \<Rightarrow> JBig (a + k) | _ \<Rightarrow> p)"

definition deno_with_offset :: host where
  "deno_with_offset =
     deno_without_offset
       \<lparr>host_Deno := Some \<lparr>deno_dlopen = True,
                           deno_UnsafePointer =
                             Some \<lparr>up_of = JBig, up_offset = Some offset_pointer,
                                   up_value = Some (\<lambda>p. p)\<rparr>,
                           deno_UnsafePointerView = Some plain_view,
                           deno_UnsafeCallback = True,
                           deno_build_arch = Some ''x86_64''\<rparr>\<rparr>"

definition bun_sample_ffi :: bun_ffi where
  "bun_sample_ffi =
     \<lparr>bun_ptr = JNum,
      bun_toArrayBuffer =
        (\<lambda>p off len. plain_view (offset_pointer p off) (case len of None \<Rightarrow> 0 | Some l \<Rightarrow> l))\<rparr>"

definition bun_host :: host where
  "bun_host = sample_engine\<lparr>host_Bun_FFI := Some bun_sample_ffi, host_process_arch := Some ''x64''\<rparr>"

fun is_number_or_bigint :: "jsval \<Rightarrow> bool" where
  "is_number_or_bigint (JNum n) = True"
| "is_number_or_bigint (JBig n) = True"
| "is_number_or_bigint _ = False"

definition resolvable :: "host \<Rightarrow> jsval \<Rightarrow> bool" where
  "resolvable h pointer =
     (case pointerValue h of None \<Rightarrow> False | Some f \<Rightarrow> is_number_or_bigint (f pointer))"

definition sample_unicode :: unicode where
  "sample_unicode =
     \<lparr>is_Mark = (\<lambda>c. 0x300 \<le> c \<and> c \<le> 0x36F),
      is_Extended_Pictographic = (\<lambda>c. 0x1F600 \<le> c \<and> c \<le> 0x1F64F)\<rparr>"


text \<open>
  A struct with a one-byte flag, an id, a string, an array and the array's length field,
  the length relation declared on the length field.
\<close>

definition no_struct_options :: StructDefOptions where
  "no_struct_options = \<lparr>so_reduceValue = None\<rparr>"

definition sample_fields :: "FieldDef list" where
  "sample_fields =
     [(''flag'', T_primitive U8, None),
      (''id'', T_primitive U32, None),
      (''name'', T_char_ptr, None),
      (''tags'', T_array U32, None),
      (''tagCount'', T_primitive U32, Some (no_options\<lparr>fo_lengthOf := Some ''tags''\<rparr>))]"


text \<open>
  A Deno host over a memory of payload buffers: a pointer object is the BigInt of its
  address, and a view at an address reads the buffer that stands there.
\<close>

definition memory_view :: "(int \<times> byte list) list \<Rightarrow> jsval \<Rightarrow> int \<Rightarrow> byte list" where
  "memory_view mem p len =
     (case p of
        JBig a \<Rightarrow> (case map_of mem a of None \<Rightarrow> [] | Some bs \<Rightarrow> take (nat len) bs)
      | _ \<Rightarrow> [])"

definition deno_host :: "(int \<times> byte list) list \<Rightarrow> host" where
  "deno_host mem =
     sample_engine
       \<lparr>host_Deno := Some \<lparr>deno_dlopen = True,
                           deno_UnsafePointer =
                             Some \<lparr>up_of = JBig, up_offset = None, up_value = Some (\<lambda>p. p)\<rparr>,
                           deno_UnsafePointerView = Some (memory_view mem),
                           deno_UnsafeCallback = True,
                           deno_build_arch = Some ''x86_64''\<rparr>\<rparr>"

definition sample_addr :: "nat \<Rightarrow> int" where
  "sample_addr k = 4096 + 256 * int k"


text \<open>A struct with a string and its length field, the relation declared on the string.\<close>

definition counted_string_fields :: "FieldDef list" where
  "counted_string_fields =
     [(''len'', T_primitive U32, None),
      (''name'', T_char_ptr, Some (no_options\<lparr>fo_lengthOf := Some ''len''\<rparr>))]"

definition counted_len_entry :: LayoutEntry where
  "counted_len_entry =
     \<lparr>le_name = ''len'', le_kind = K_primitive, le_type = U32, le_offset = 0, le_size = 4,
      le_optional = False, le_defaultValue = JUndefined, le_lengthOf = None,
      le_packTransform = None, le_unpackTransform = None, le_enumDef = None\<rparr>"

definition counted_name_entry :: LayoutEntry where
  "counted_name_entry =
     \<lparr>le_name = ''name'', le_kind = K_char_ptr, le_type = Pointer, le_offset = 8, le_size = 8,
      le_optional = False, le_defaultValue = JUndefined, le_lengthOf = Some ''len'',
      le_packTransform = None, le_unpackTransform = None, le_enumDef = None\<rparr>"

text \<open>A struct with a string and a one-byte length field declared \<open>lengthOf\<close> the string.\<close>

definition short_string_fields :: "FieldDef list" where
  "short_string_fields =
     [(''name'', T_char_ptr, None),
      (''len'', T_primitive U8, Some (no_options\<lparr>fo_lengthOf := Some ''name''\<rparr>))]"

definition short_name_entry :: LayoutEntry where
  "short_name_entry =
     \<lparr>le_name = ''name'', le_kind = K_char_ptr, le_type = Pointer, le_offset = 0, le_size = 8,
      le_optional = False, le_defaultValue = JUndefined, le_lengthOf = None,
      le_packTransform = None, le_unpackTransform = None, le_enumDef = None\<rparr>"

definition short_len_entry :: LayoutEntry where
  "short_len_entry =
     \<lparr>le_name = ''len'', le_kind = K_primitive, le_type = U8, le_offset = 8, le_size = 1,
      le_optional = False, le_defaultValue = JUndefined, le_lengthOf = Some ''name'',
      le_packTransform = None, le_unpackTransform = None, le_enumDef = None\<rparr>"


text \<open>
  A struct with a one-byte length field declared \<open>lengthOf\<close> a string that is declared
  \<open>lengthOf\<close> the length field in turn.
\<close>

definition mutual_string_fields :: "FieldDef list" where
  "mutual_string_fields =
     [(''len'', T_primitive U8, Some (no_options\<lparr>fo_lengthOf := Some ''name''\<rparr>)),
      (''name'', T_char_ptr, Some (no_options\<lparr>fo_lengthOf := Some ''len''\<rparr>))]"

definition mutual_len_entry :: LayoutEntry where
  "mutual_len_entry =
     \<lparr>le_name = ''len'', le_kind = K_primitive, le_type = U8, le_offset = 0, le_size = 1,
      le_optional = False, le_defaultValue = JUndefined, le_lengthOf = Some ''name'',
      le_packTransform = None, le_unpackTransform = None, le_enumDef = None\<rparr>"

definition mutual_name_entry :: LayoutEntry where
  "mutual_name_entry =
     \<lparr>le_name = ''name'', le_kind = K_char_ptr, le_type = Pointer, le_offset = 8, le_size = 8,
      le_optional = False, le_defaultValue = JUndefined, le_lengthOf = Some ''len'',
      le_packTransform = None, le_unpackTransform = None, le_enumDef = None\<rparr>"










section \<open>Properties of objects\<close>

lemma object_literal_sel [simp]:
  "obj_own (object_literal properties) = properties"
  "obj_proto (object_literal properties) = None"
  by (simp_all add: object_literal_def)

lemma get_prop_literal:
  "get_prop h (object_literal properties) key
     = (case map_of properties key of None \<Rightarrow> host_Object_prototype h key | Some v \<Rightarrow> v)"
  by (cases "map_of properties key") (simp_all add: get_prop_def inherited_def)

lemma set_prop_fresh:
  "key \<notin> fst ` set properties \<Longrightarrow> key \<noteq> ''__proto__'' \<Longrightarrow>
   set_prop (object_literal properties) key v = object_literal (properties @ [(key, v)])"
  by (simp add: set_prop_def object_literal_def)

section \<open>Properties of enumerations\<close>








section \<open>Properties of the FFI shim\<close>

lemma upt_2: "[0..<2] = [0, Suc 0]"
  by (simp add: upt_rec)

text \<open>
  C6 as the claim states it fails: with a positive offset on a host that cannot offset a
  pointer, \<open>toArrayBuffer\<close> does not fail; it returns the bytes at the pointer itself
  (here the two bytes at address 16, not those at 20).
\<close>

theorem toArrayBuffer_offset_counterexample:
  "toArrayBuffer deno_without_offset (JBig 16) 4 (Some 2) = Inr [16, 17]"
  by (simp add: toArrayBuffer_def deno_without_offset_def sample_engine_def detectFfiRuntime_def
      getDenoFFI_def plain_view_def upt_2)

text \<open>
  C6 (amended): on the Deno path \<open>toArrayBuffer(pointer, byteOffset, byteLength)\<close>
  applies the host's pointer offset arithmetic exactly when \<open>byteOffset > 0\<close> and the
  host supports it; when \<open>byteOffset > 0\<close> and the host does not support offsetting,
  it proceeds with the pointer as given and returns what the host reads there (of the
  length \<open>byteLength\<close>, or 0 when none is given); it never fails for the offset. On the
  Bun path the three arguments go to the host's own \<open>toArrayBuffer\<close> as they are.
\<close>

theorem toArrayBuffer_offset:
  "(detectFfiRuntime h = Inr Deno \<and> getDenoFFI h = Inr (up, view) \<longrightarrow>
      (0 < byteOffset \<and> up_offset up = Some offset \<longrightarrow>
         toArrayBuffer h pointer byteOffset byteLength
           = Inr (view (offset pointer byteOffset) (case byteLength of None \<Rightarrow> 0 | Some l \<Rightarrow> l)))
      \<and> (0 < byteOffset \<and> up_offset up = None \<longrightarrow>
         toArrayBuffer h pointer byteOffset byteLength
           = Inr (view pointer (case byteLength of None \<Rightarrow> 0 | Some l \<Rightarrow> l)))
      \<and> (byteOffset \<le> 0 \<longrightarrow>
         toArrayBuffer h pointer byteOffset byteLength
           = Inr (view pointer (case byteLength of None \<Rightarrow> 0 | Some l \<Rightarrow> l))))
   \<and> (detectFfiRuntime h = Inr Bun \<and> getBunFFI h = Inr ffi \<longrightarrow>
        toArrayBuffer h pointer byteOffset byteLength
          = Inr (bun_toArrayBuffer ffi pointer byteOffset byteLength))"
  by (auto simp: toArrayBuffer_def split: option.splits)

theorem toArrayBuffer_offset_witness:
  "toArrayBuffer deno_without_offset (JBig 16) 4 (Some 2) = Inr [16, 17]
   \<and> toArrayBuffer deno_without_offset (JBig 16) 0 (Some 2) = Inr [16, 17]
   \<and> toArrayBuffer deno_with_offset (JBig 16) 4 (Some 2) = Inr [20, 21]
   \<and> toArrayBuffer bun_host (JBig 16) 4 (Some 2) = Inr [20, 21]"
proof -
  have r: "detectFfiRuntime deno_without_offset = Inr Deno"
    by (simp add: detectFfiRuntime_def deno_without_offset_def sample_engine_def)
  have d: "getDenoFFI deno_without_offset
             = Inr (\<lparr>up_of = JBig, up_offset = None, up_value = Some (\<lambda>p. p)\<rparr>, plain_view)"
    by (simp add: getDenoFFI_def deno_without_offset_def)
  have r': "detectFfiRuntime deno_with_offset = Inr Deno"
    by (simp add: detectFfiRuntime_def deno_with_offset_def deno_without_offset_def
        sample_engine_def)
  have d': "getDenoFFI deno_with_offset
             = Inr (\<lparr>up_of = JBig, up_offset = Some offset_pointer, up_value = Some (\<lambda>p. p)\<rparr>,
                    plain_view)"
    by (simp add: getDenoFFI_def deno_with_offset_def deno_without_offset_def)
  have rb: "detectFfiRuntime bun_host = Inr Bun"
    by (simp add: detectFfiRuntime_def bun_host_def)
  have db: "getBunFFI bun_host = Inr bun_sample_ffi"
    by (simp add: getBunFFI_def bun_host_def)
  show ?thesis
    using toArrayBuffer_offset
        [of deno_without_offset "\<lparr>up_of = JBig, up_offset = None, up_value = Some (\<lambda>p. p)\<rparr>"
          plain_view 4 offset_pointer "JBig 16" "Some 2" bun_sample_ffi]
      toArrayBuffer_offset
        [of deno_without_offset "\<lparr>up_of = JBig, up_offset = None, up_value = Some (\<lambda>p. p)\<rparr>"
          plain_view 0 offset_pointer "JBig 16" "Some 2" bun_sample_ffi]
      toArrayBuffer_offset
        [of deno_with_offset
          "\<lparr>up_of = JBig, up_offset = Some offset_pointer, up_value = Some (\<lambda>p. p)\<rparr>"
          plain_view 4 offset_pointer "JBig 16" "Some 2" bun_sample_ffi]
      toArrayBuffer_offset
        [of bun_host "\<lparr>up_of = JBig, up_offset = None, up_value = Some (\<lambda>p. p)\<rparr>"
          plain_view 4 offset_pointer "JBig 16" "Some 2" bun_sample_ffi]
    by (simp add: r d r' d' rb db plain_view_def offset_pointer_def upt_2 bun_sample_ffi_def)
qed

text \<open>
  C10: \<open>pointerToBigInt\<close> of \<open>null\<close> or \<open>undefined\<close> is the BigInt 0, on every host;
  it fails, and then with \<open>UnsupportedPointer\<close>, exactly for a pointer that is not
  \<open>null\<close> or \<open>undefined\<close>, not a Number, not a BigInt, and that the host's pointer-value
  accessor is absent for or turns into neither a BigInt nor a Number.
\<close>

theorem pointerToBigInt_null:
  "pointerToBigInt h JNull = Inr 0
   \<and> pointerToBigInt h JUndefined = Inr 0
   \<and> (pointerToBigInt h pointer = Inl e \<longleftrightarrow>
        e = UnsupportedPointer \<and> \<not> nullish pointer \<and> \<not> is_number_or_bigint pointer
        \<and> \<not> resolvable h pointer)"
proof -
  have "pointerToBigInt h pointer = Inl e \<longleftrightarrow>
        e = UnsupportedPointer \<and> \<not> nullish pointer \<and> \<not> is_number_or_bigint pointer
        \<and> \<not> resolvable h pointer"
  proof (cases "pointerValue h")
    case None
    then show ?thesis
      by (cases pointer) (auto simp: pointerToBigInt_def resolvable_def)
  next
    case (Some f)
    then show ?thesis
      by (cases pointer; cases "f pointer") (auto simp: pointerToBigInt_def resolvable_def)
  qed
  then show ?thesis by (simp add: pointerToBigInt_def)
qed

theorem pointerToBigInt_null_witness:
  "pointerToBigInt deno_without_offset JNull = Inr 0
   \<and> pointerToBigInt deno_without_offset JUndefined = Inr 0
   \<and> pointerToBigInt deno_without_offset (JObj 3) = Inl UnsupportedPointer
   \<and> pointerToBigInt deno_without_offset (JStr ''p'') = Inl UnsupportedPointer"
  using pointerToBigInt_null [of deno_without_offset "JObj 3" UnsupportedPointer]
    pointerToBigInt_null [of deno_without_offset "JStr ''p''" UnsupportedPointer]
  by (simp add: resolvable_def pointerValue_def deno_without_offset_def sample_engine_def)

section \<open>Properties of symbol normalization\<close>

text \<open>
  C7 as the claim states it fails for the Bun target: the alias \<open>ptr\<close> is not mapped to
  \<open>pointer\<close> there, so a legacy definition written with \<open>ptr\<close> keeps \<open>ptr\<close>, and its
  result differs from that of the canonical definition written with \<open>pointer\<close>.
\<close>

theorem normalize_bun_ptr_counterexample:
  "normalizeSymbolsForRuntime [(''f'', legacy_shape ([N_ptr], N_void, None))] Bun
     = [(''f'', BunSymbol \<lparr>b_args = [N_ptr], b_returns = N_void, b_nonblocking = None\<rparr>)]
   \<and> normalizeSymbolsForRuntime [(''f'', legacy_shape ([N_ptr], N_void, None))] Bun
     \<noteq> normalizeSymbolsForRuntime [(''f'', canonical_shape ([N_pointer], N_void, None))] Bun"
  by (simp add: normalizeSymbolsForRuntime_def toBunSymbols_def normalizeSymbol_def
      legacy_shape_def canonical_shape_def)

lemma normalizeSymbol_shapes: "normalizeSymbol (legacy_shape d) = normalizeSymbol (canonical_shape d)"
  by (cases d) (simp add: normalizeSymbol_def legacy_shape_def canonical_shape_def)

lemma toDenoType_idem: "toDenoType (toDenoType t) = toDenoType t"
  by (simp add: toDenoType_def)

lemma normalizeSymbol_canonical:
  "normalizeSymbol (canonical_shape d)
     = \<lparr>b_args = fst d, b_returns = fst (snd d), b_nonblocking = snd (snd d)\<rparr>"
  by (cases d) (simp add: normalizeSymbol_def canonical_shape_def)

text \<open>
  C7 (amended): for every table of logical definitions and either target runtime,
  normalizing the table written in the legacy shape and the same table written in the
  canonical shape gives identical results (same argument types, same return type, same
  nonblocking flag). For the Deno target the alias \<open>ptr\<close> is mapped to \<open>pointer\<close>:
  the result is the same whether the definitions say \<open>ptr\<close> or \<open>pointer\<close>, and no
  \<open>ptr\<close> is left in it. The Bun target keeps the type names as they are given.
\<close>

theorem normalize_shapes_agree:
  "normalizeSymbolsForRuntime (in_shape legacy_shape table) runtime
     = normalizeSymbolsForRuntime (in_shape canonical_shape table) runtime
   \<and> normalizeSymbolsForRuntime (in_shape legacy_shape table) Deno
     = normalizeSymbolsForRuntime (in_shape canonical_shape (map (\<lambda>(name, d). (name, unalias d)) table)) Deno
   \<and> list_all (\<lambda>(name, s). N_ptr \<notin> set (symbol_types s))
       (normalizeSymbolsForRuntime (in_shape legacy_shape table) Deno)"
proof -
  have 1: "normalizeSymbolsForRuntime (in_shape legacy_shape table) runtime
     = normalizeSymbolsForRuntime (in_shape canonical_shape table) runtime"
    by (simp add: normalizeSymbolsForRuntime_def toBunSymbols_def toDenoSymbols_def in_shape_def
        normalizeSymbol_shapes split_def)
  have 2: "normalizeSymbolsForRuntime (in_shape legacy_shape table) Deno
     = normalizeSymbolsForRuntime (in_shape canonical_shape (map (\<lambda>(name, d). (name, unalias d)) table)) Deno"
    by (simp add: normalizeSymbolsForRuntime_def toDenoSymbols_def in_shape_def
        normalizeSymbol_shapes normalizeSymbol_canonical unalias_def split_def toDenoType_idem
        comp_def Let_def)
  have 3: "list_all (\<lambda>(name, s). N_ptr \<notin> set (symbol_types s))
       (normalizeSymbolsForRuntime (in_shape legacy_shape table) Deno)"
    by (auto simp: normalizeSymbolsForRuntime_def toDenoSymbols_def in_shape_def list_all_iff
        toDenoType_def split_def Let_def)
  from 1 2 3 show ?thesis by blast
qed

theorem normalize_shapes_agree_witness:
  "normalizeSymbolsForRuntime (in_shape legacy_shape [(''f'', ([N_ptr, N_u32], N_void, Some True))]) Deno
     = [(''f'', DenoSymbol \<lparr>d_parameters = [N_pointer, N_u32], d_result = N_void,
                             d_nonblocking = Some True\<rparr>)]
   \<and> normalizeSymbolsForRuntime (in_shape canonical_shape [(''f'', ([N_ptr, N_u32], N_void, Some True))]) Deno
     = [(''f'', DenoSymbol \<lparr>d_parameters = [N_pointer, N_u32], d_result = N_void,
                             d_nonblocking = Some True\<rparr>)]"
  using normalize_shapes_agree [of "[(''f'', ([N_ptr, N_u32], N_void, Some True))]" Deno]
  by (simp add: normalizeSymbolsForRuntime_def toDenoSymbols_def in_shape_def
      normalizeSymbol_def canonical_shape_def toDenoType_def)

section \<open>Properties of the display width\<close>

text \<open>
  C9: on the fallback path (no \<open>Bun.stringWidth\<close>), given that the engine's Unicode
  tables class U+0301 as a Mark and U+1F642 as Extended_Pictographic and neither
  \<open>e\<close>, \<open>A\<close> as a Mark or pictographic nor U+1F642 as a Mark, the display width of
  \<open>e\<close> followed by U+0301 is 1, that of U+1F642 is 2 and that of \<open>A\<close> is 1.
\<close>

theorem stringWidth_scenario:
  assumes "is_Mark u 0x301" and "is_Extended_Pictographic u 0x1F642"
    and "\<not> is_Mark u 0x1F642"
    and "\<not> is_Mark u 0x65" and "\<not> is_Extended_Pictographic u 0x65"
    and "\<not> is_Mark u 0x41" and "\<not> is_Extended_Pictographic u 0x41"
  shows "stringWidth None u [0x65, 0x301] = 1
       \<and> stringWidth None u [0x1F642] = 2
       \<and> stringWidth None u [0x41] = 1"
  using assms by (simp add: stringWidth_def getCharWidth_def isFullWidthCodePoint_def)

theorem stringWidth_scenario_witness:
  "stringWidth None sample_unicode [0x65, 0x301] = 1
   \<and> stringWidth None sample_unicode [0x1F642] = 2
   \<and> stringWidth None sample_unicode [0x41] = 1"
  using stringWidth_scenario [of sample_unicode]
  by (simp add: sample_unicode_def)

section \<open>Properties of the layout\<close>

lemma take_bit_sint_32: "k \<le> 32 \<Longrightarrow> take_bit k (sint (w :: 32 word)) = take_bit k (uint w)"
  by (simp add: sint_uint take_bit_signed_take_bit)

lemma take_bit_and_not_mask: "take_bit k ((w :: 32 word) AND NOT (mask k)) = 0"
  by (rule bit_eqI) (auto simp: bit_simps)

lemma dvd_sint_and_not_mask:
  assumes "k \<le> 32"
  shows "2 ^ k dvd sint ((w :: 32 word) AND NOT (mask k))"
proof -
  have "take_bit k (sint (w AND NOT (mask k))) = take_bit k (uint (w AND NOT (mask k)))"
    using assms by (rule take_bit_sint_32)
  also have "\<dots> = uint (take_bit k (w AND NOT (mask k)))"
    by (simp only: unsigned_take_bit_eq)
  also have "\<dots> = 0"
    by (simp only: take_bit_and_not_mask uint_0_eq)
  finally show ?thesis by (simp add: take_bit_eq_0_iff)
qed

lemma alignOffset_dvd:
  assumes "align \<in> {1, 2, 4, 8}"
  shows "align dvd alignOffset offset align"
proof -
  from assms consider "align = 1" | "align = 2" | "align = 4" | "align = 8" by auto
  then show ?thesis
  proof cases
    case 1
    then show ?thesis by simp
  next
    case 2
    have "(word_of_int (2 - 1) :: 32 word) = mask 1" by simp
    with 2 show ?thesis using dvd_sint_and_not_mask [of 1] by (simp add: alignOffset_def)
  next
    case 3
    have "(word_of_int (4 - 1) :: 32 word) = mask 2" by (simp add: mask_eq_exp_minus_1)
    with 3 show ?thesis using dvd_sint_and_not_mask [of 2] by (simp add: alignOffset_def)
  next
    case 4
    have "(word_of_int (8 - 1) :: 32 word) = mask 3" by (simp add: mask_eq_exp_minus_1)
    with 4 show ?thesis using dvd_sint_and_not_mask [of 3] by (simp add: alignOffset_def)
  qed
qed

lemma getPointerSize_cases: "getPointerSize h = 4 \<or> getPointerSize h = 8"
  by (simp add: getPointerSize_def Let_def)

lemma primitiveSizes_cases:
  "ps = 4 \<or> ps = 8 \<Longrightarrow> primitiveSizes ps t \<in> {1, 2, 4, 8}"
  by (cases t) auto

lemma layout_entry_size:
  "ps = 4 \<or> ps = 8 \<Longrightarrow> le_size (layout_entry ps field offset) \<in> {1, 2, 4, 8}"
  using primitiveSizes_cases [of ps]
  by (cases field; cases "fst (snd field)") (auto simp: layout_entry_def Let_def)

lemma layout_entry_offset:
  "le_offset (layout_entry ps field offset)
     = alignOffset offset (max 1 (min (le_size (layout_entry ps field offset)) ps))"
  by (cases field; cases "fst (snd field)") (auto simp: layout_entry_def Let_def)

lemma layout_entry_name: "le_name (layout_entry ps field offset) = fst field"
  by (cases field) (simp add: layout_entry_def Let_def)

lemma layout_entry_ok: "entry_ok ps (layout_entry ps field offset)"
  by (cases field; cases "fst (snd field)") (auto simp: layout_entry_def Let_def entry_ok_def)

lemma layout_entry_aligned:
  assumes ps: "ps = 4 \<or> ps = 8"
  shows "le_offset (layout_entry ps field offset) mod min (le_size (layout_entry ps field offset)) ps = 0"
proof -
  let ?e = "layout_entry ps field offset"
  have "le_size ?e \<in> {1, 2, 4, 8}" using ps by (rule layout_entry_size)
  with ps have m: "max 1 (min (le_size ?e) ps) = min (le_size ?e) ps"
    and a: "min (le_size ?e) ps \<in> {1, 2, 4, 8}"
    by auto
  have "min (le_size ?e) ps dvd le_offset ?e"
    using alignOffset_dvd [OF a, of offset] layout_entry_offset [of ps field offset] m by simp
  then show ?thesis by simp
qed

lemma layout_step_aligned:
  assumes ps: "ps = 4 \<or> ps = 8"
    and inv: "\<forall>e \<in> set layout. le_offset e mod min (le_size e) ps = 0"
    and step: "layout_step ps field (offset, layout) = (offset', layout')"
  shows "\<forall>e \<in> set layout'. le_offset e mod min (le_size e) ps = 0"
proof -
  from step have "layout' = layout @ [layout_entry ps field offset]"
    by (auto simp: layout_step_def Let_def)
  with inv layout_entry_aligned [OF ps, of field offset] show ?thesis by simp
qed

lemma fold_layout_step_aligned:
  assumes ps: "ps = 4 \<or> ps = 8"
  shows "\<forall>e \<in> set (snd st). le_offset e mod min (le_size e) ps = 0 \<Longrightarrow>
         \<forall>e \<in> set (snd (fold (layout_step ps) fieldDefs st)). le_offset e mod min (le_size e) ps = 0"
proof (induction fieldDefs arbitrary: st)
  case Nil
  then show ?case by simp
next
  case (Cons field fieldDefs)
  obtain offset layout where st: "st = (offset, layout)" by (cases st)
  obtain offset' layout' where s: "layout_step ps field (offset, layout) = (offset', layout')"
    by (cases "layout_step ps field (offset, layout)")
  have "\<forall>e \<in> set layout'. le_offset e mod min (le_size e) ps = 0"
    using ps _ s
  proof (rule layout_step_aligned)
    show "\<forall>e \<in> set layout. le_offset e mod min (le_size e) ps = 0"
      using Cons.prems st by simp
  qed
  then have "\<forall>e \<in> set (snd (fold (layout_step ps) fieldDefs (offset', layout'))).
               le_offset e mod min (le_size e) ps = 0"
    using Cons.IH [of "(offset', layout')"] by simp
  with st s show ?case by simp
qed

text \<open>
  C2: for every field list, on every host, each layout entry's offset is a multiple of
  \<open>min(size, pointerWidth)\<close> and the struct's total size is a multiple of the pointer
  width.
\<close>

theorem alignment_invariant:
  "(\<forall>entry \<in> set (sd_layout (defineStruct h fieldDefs options)).
      le_offset entry mod min (le_size entry) (getPointerSize h) = 0)
   \<and> sd_size (defineStruct h fieldDefs options) mod getPointerSize h = 0"
proof -
  have ps: "getPointerSize h = 4 \<or> getPointerSize h = 8"
    by (rule getPointerSize_cases)
  have 1: "\<forall>entry \<in> set (sd_layout (defineStruct h fieldDefs options)).
      le_offset entry mod min (le_size entry) (getPointerSize h) = 0"
    using fold_layout_step_aligned [OF ps, of "(0, [])" fieldDefs]
    by (simp add: defineStruct_def Let_def)
  from ps have "getPointerSize h \<in> {1, 2, 4, 8}" by auto
  then have "getPointerSize h dvd alignOffset (fst (fold (layout_step (getPointerSize h)) fieldDefs (0, [])))
      (getPointerSize h)"
    by (rule alignOffset_dvd)
  then have 2: "sd_size (defineStruct h fieldDefs options) mod getPointerSize h = 0"
    by (simp add: defineStruct_def Let_def)
  from 1 2 show ?thesis by blast
qed

lemma getPointerSize_sample: "getPointerSize deno_without_offset = 8"
  by (simp add: getPointerSize_def deno_without_offset_def sample_engine_def)

lemma sample_layout_offsets:
  "map (\<lambda>e. (le_name e, le_offset e, le_size e))
       (sd_layout (defineStruct deno_without_offset sample_fields no_struct_options))
     = [(''flag'', 0, 1), (''id'', 4, 4), (''name'', 8, 8), (''tags'', 16, 8), (''tagCount'', 24, 4)]"
  by (simp add: defineStruct_def getPointerSize_sample sample_fields_def layout_step_def
      layout_entry_def alignOffset_def no_options_def)

lemma sample_struct_size:
  "sd_size (defineStruct deno_without_offset sample_fields no_struct_options) = 32"
  by (simp add: defineStruct_def getPointerSize_sample sample_fields_def layout_step_def
      layout_entry_def alignOffset_def no_options_def)

theorem alignment_invariant_witness:
  "list_all (\<lambda>entry. le_offset entry mod min (le_size entry) 8 = 0)
     (sd_layout (defineStruct deno_without_offset sample_fields no_struct_options))
   \<and> sd_size (defineStruct deno_without_offset sample_fields no_struct_options) mod 8 = 0
   \<and> map le_offset (sd_layout (defineStruct deno_without_offset sample_fields no_struct_options))
       = [0, 4, 8, 16, 24]
   \<and> sd_size (defineStruct deno_without_offset sample_fields no_struct_options) = 32"
proof -
  have "map le_offset (sd_layout (defineStruct deno_without_offset sample_fields no_struct_options))
       = map (\<lambda>x. fst (snd x)) (map (\<lambda>e. (le_name e, le_offset e, le_size e))
           (sd_layout (defineStruct deno_without_offset sample_fields no_struct_options)))"
    by (simp add: comp_def)
  then have "map le_offset (sd_layout (defineStruct deno_without_offset sample_fields no_struct_options))
       = [0, 4, 8, 16, 24]"
    by (simp only: sample_layout_offsets) simp
  then show ?thesis
    using alignment_invariant [of deno_without_offset sample_fields no_struct_options]
    by (simp add: getPointerSize_sample sample_struct_size list_all_iff)
qed

lemma int_and_not_mask: "(x::int) AND NOT (mask k) = (x div 2 ^ k) * 2 ^ k"
proof -
  have "x AND NOT (mask k) = push_bit k (drop_bit k x)"
    by (rule bit_eqI) (auto simp: bit_simps)
  then show ?thesis by (simp add: push_bit_eq_mult drop_bit_eq_div)
qed

lemma sint_and_not_mask:
  assumes "0 \<le> x" "x < 2 ^ 31"
  shows "sint ((word_of_int x :: 32 word) AND NOT (mask k)) = (x div 2 ^ k) * 2 ^ k"
proof -
  define y where "y = (x div 2 ^ k) * 2 ^ k"
  have "(word_of_int x :: 32 word) AND NOT (mask k) = word_of_int (x AND NOT (mask k))"
    by (simp add: of_int_and_eq of_int_not_eq of_int_mask_eq)
  also have "\<dots> = word_of_int y"
    by (simp only: int_and_not_mask y_def)
  finally have "sint ((word_of_int x :: 32 word) AND NOT (mask k)) = signed_take_bit 31 y"
    by (simp add: sint_sbintrunc')
  moreover have "0 \<le> y" using assms by (simp add: y_def pos_imp_zdiv_nonneg_iff)
  moreover have "y \<le> x"
  proof -
    have "y = x - x mod 2 ^ k" by (simp add: y_def minus_mod_eq_div_mult)
    moreover have "0 \<le> x mod (2 ^ k :: int)" by simp
    ultimately show ?thesis by linarith
  qed
  ultimately show ?thesis
    using assms by (simp add: signed_take_bit_int_eq_self y_def)
qed

lemma alignOffset_pow2:
  assumes "0 \<le> offset" "offset + 2 ^ k - 1 < 2 ^ 31"
  shows "alignOffset offset (2 ^ k) = ((offset + 2 ^ k - 1) div 2 ^ k) * 2 ^ k"
proof -
  have "(word_of_int (2 ^ k - 1) :: 32 word) = mask k"
    by (simp add: mask_eq_exp_minus_1)
  then have "alignOffset offset (2 ^ k)
      = sint ((word_of_int (offset + 2 ^ k - 1) :: 32 word) AND NOT (mask k))"
    by (simp only: alignOffset_def)
  also have "\<dots> = ((offset + 2 ^ k - 1) div 2 ^ k) * 2 ^ k"
  proof (rule sint_and_not_mask)
    have "(0::int) < 2 ^ k" by simp
    with assms(1) show "0 \<le> offset + 2 ^ k - 1" by linarith
    show "offset + 2 ^ k - 1 < 2 ^ 31" by (rule assms(2))
  qed
  finally show ?thesis .
qed

lemma alignOffset_eq:
  assumes "align \<in> {1, 2, 4, 8}" "0 \<le> offset" "offset + align - 1 < 2 ^ 31"
  shows "alignOffset offset align = ((offset + align - 1) div align) * align"
proof -
  from assms(1) consider "align = 2 ^ 0" | "align = 2 ^ 1" | "align = 2 ^ 2" | "align = 2 ^ 3"
    by auto
  then obtain k :: nat where "align = 2 ^ k" by blast
  with assms show ?thesis using alignOffset_pow2 [of offset k] by simp
qed

lemma alignOffset_bounds:
  assumes "align \<in> {1, 2, 4, 8}" "0 \<le> offset" "offset + align - 1 < 2 ^ 31"
  shows "offset \<le> alignOffset offset align \<and> alignOffset offset align < offset + align"
proof -
  have a: "0 < align" using assms(1) by auto
  have e: "alignOffset offset align = ((offset + align - 1) div align) * align"
    using assms by (rule alignOffset_eq)
  have "(offset + align - 1) div align * align = (offset + align - 1) - (offset + align - 1) mod align"
    by (simp add: minus_mod_eq_div_mult)
  moreover have "0 \<le> (offset + align - 1) mod align" "(offset + align - 1) mod align < align"
    using a by simp_all
  ultimately show ?thesis unfolding e by linarith
qed

lemma slots_ok_mono: "slots_ok lo es hi \<Longrightarrow> hi \<le> hi' \<Longrightarrow> slots_ok lo es hi'"
  by (induction es arbitrary: lo) auto

lemma slots_ok_le: "slots_ok lo es hi \<Longrightarrow> lo \<le> hi"
  by (induction es arbitrary: lo) force+

lemma slots_ok_snoc:
  "slots_ok lo es hi \<Longrightarrow> hi \<le> le_offset e \<Longrightarrow> 0 < le_size e \<Longrightarrow>
   slots_ok lo (es @ [e]) (le_offset e + le_size e)"
  by (induction es arbitrary: lo) auto

lemma slots_ok_append:
  "slots_ok lo (xs @ ys) hi \<Longrightarrow> \<exists>mid. slots_ok lo xs mid \<and> slots_ok mid ys hi"
  by (induction xs arbitrary: lo) auto

lemma slots_ok_bounds:
  "slots_ok lo es hi \<Longrightarrow> e \<in> set es \<Longrightarrow>
   lo \<le> le_offset e \<and> 0 < le_size e \<and> le_offset e + le_size e \<le> hi"
proof (induction es arbitrary: lo)
  case Nil
  then show ?case by simp
next
  case (Cons x es)
  show ?case
  proof (cases "e = x")
    case True
    with Cons.prems slots_ok_le [of "le_offset x + le_size x" es hi] show ?thesis by simp
  next
    case False
    with Cons.prems have "e \<in> set es" "slots_ok (le_offset x + le_size x) es hi" by auto
    then have "le_offset x + le_size x \<le> le_offset e \<and> 0 < le_size e \<and> le_offset e + le_size e \<le> hi"
      using Cons.IH by blast
    with Cons.prems show ?thesis by simp
  qed
qed

lemma slots_ok_split:
  assumes "slots_ok lo (pre @ e # post) hi"
  shows "(\<forall>x \<in> set pre. le_offset x + le_size x \<le> le_offset e)
       \<and> (\<forall>x \<in> set post. le_offset e + le_size e \<le> le_offset x)"
proof -
  from assms obtain mid where p: "slots_ok lo pre mid" and q: "slots_ok mid (e # post) hi"
    using slots_ok_append by blast
  from q have m: "mid \<le> le_offset e" and r: "slots_ok (le_offset e + le_size e) post hi" by auto
  have "\<forall>x \<in> set pre. le_offset x + le_size x \<le> le_offset e"
    using slots_ok_bounds [OF p] m by force
  moreover have "\<forall>x \<in> set post. le_offset e + le_size e \<le> le_offset x"
    using slots_ok_bounds [OF r] by blast
  ultimately show ?thesis by blast
qed

lemma sint_wrapped:
  assumes "2 ^ 31 \<le> y" "y < 2 ^ 32"
  shows "sint (word_of_int y :: 32 word) = y - 2 ^ 32"
proof -
  have 1: "sint (word_of_int y :: 32 word) = signed_take_bit 31 y"
    by (simp add: sint_sbintrunc')
  have 2: "signed_take_bit 31 y = take_bit 32 y - 2 ^ 32 * of_bool (bit y 31)"
    using signed_take_bit_eq_take_bit_minus [of 31 y] by simp
  have 3: "take_bit 32 y = y"
    using assms by (simp add: take_bit_int_eq_self)
  have "y div 2 ^ 31 = 1" using assms by simp
  then have 4: "bit y 31" by (simp add: bit_iff_odd)
  show ?thesis unfolding 1 2 3 using 4 by simp
qed

lemma sint_and_not_mask_wrapped:
  assumes "2 ^ 31 \<le> x" "x < 2 ^ 32" "k \<le> 31"
  shows "sint ((word_of_int x :: 32 word) AND NOT (mask k)) < 0"
proof -
  define y where "y = (x div 2 ^ k) * 2 ^ k"
  have "(word_of_int x :: 32 word) AND NOT (mask k) = word_of_int (x AND NOT (mask k))"
    by (simp add: of_int_and_eq of_int_not_eq of_int_mask_eq)
  also have "\<dots> = word_of_int y"
    by (simp only: int_and_not_mask y_def)
  finally have e: "(word_of_int x :: 32 word) AND NOT (mask k) = word_of_int y" .
  have yx: "y \<le> x"
  proof -
    have "y = x - x mod 2 ^ k" by (simp add: y_def minus_mod_eq_div_mult)
    moreover have "0 \<le> x mod (2 ^ k :: int)" by simp
    ultimately show ?thesis by linarith
  qed
  define a :: int where "a = 2 ^ (31 - k)"
  define b :: int where "b = 2 ^ k"
  have b0: "0 < b" by (simp add: b_def)
  have ab: "a * b = 2 ^ 31"
    using assms(3) by (simp add: a_def b_def flip: power_add)
  then have "a * b \<le> x" using assms(1) by simp
  then have "a * b div b \<le> x div b" using b0 by (rule zdiv_mono1)
  then have "a \<le> x div b" using b0 by simp
  then have "a * b \<le> x div b * b" using b0 by (simp add: mult_right_mono)
  then have "2 ^ 31 \<le> x div b * b" by (simp only: ab)
  then have "2 ^ 31 \<le> y" by (simp only: y_def b_def)
  moreover have "y < 2 ^ 32" using yx assms(2) by linarith
  ultimately have "sint (word_of_int y :: 32 word) = y - 2 ^ 32" by (rule sint_wrapped)
  with \<open>y < 2 ^ 32\<close> show ?thesis unfolding e by simp
qed

lemma alignOffset_wrapped:
  assumes "align \<in> {1, 2, 4, 8}" "2 ^ 31 \<le> offset + align - 1" "offset + align - 1 < 2 ^ 32"
  shows "alignOffset offset align < 0"
proof -
  from assms(1) consider "align = 2 ^ 0" | "align = 2 ^ 1" | "align = 2 ^ 2" | "align = 2 ^ 3"
    by auto
  then obtain k :: nat where k: "align = 2 ^ k" "k \<le> 31"
  proof cases
    case 1 then show ?thesis using that [of 0] by simp
  next
    case 2 then show ?thesis using that [of 1] by simp
  next
    case 3 then show ?thesis using that [of 2] by simp
  next
    case 4 then show ?thesis using that [of 3] by simp
  qed
  have "(word_of_int (2 ^ k - 1) :: 32 word) = mask k"
    by (simp add: mask_eq_exp_minus_1)
  then have "alignOffset offset (2 ^ k)
      = sint ((word_of_int (offset + 2 ^ k - 1) :: 32 word) AND NOT (mask k))"
    by (simp only: alignOffset_def)
  then show ?thesis
    using sint_and_not_mask_wrapped [of "offset + 2 ^ k - 1" k] assms k by simp
qed

lemma alignOffset_lt: "alignOffset offset align < 2 ^ 31"
proof -
  have "sint w < 2 ^ 31" for w :: "32 word"
    using sint_lt [of w] by simp
  then show ?thesis by (simp add: alignOffset_def)
qed

lemma alignOffset_nonneg:
  assumes a: "align \<in> {1, 2, 4, 8}" and o: "0 \<le> offset" "offset < 2 ^ 31 + 8"
    and r: "0 \<le> alignOffset offset align"
  shows "offset \<le> alignOffset offset align \<and> alignOffset offset align < offset + align"
proof (cases "offset + align - 1 < 2 ^ 31")
  case True
  with a o(1) show ?thesis by (rule alignOffset_bounds)
next
  case False
  then have "2 ^ 31 \<le> offset + align - 1" by simp
  moreover have "offset + align - 1 < 2 ^ 32" using a o(2) by auto
  ultimately have "alignOffset offset align < 0" using a alignOffset_wrapped by blast
  with r show ?thesis by simp
qed

lemma fold_layout_step_prefix:
  "set (snd st) \<subseteq> set (snd (fold (layout_step ps) fieldDefs st))"
proof (induction fieldDefs arbitrary: st)
  case Nil
  then show ?case by simp
next
  case (Cons field fieldDefs)
  have "set (snd st) \<subseteq> set (snd (layout_step ps field st))"
    by (cases st) (auto simp: layout_step_def Let_def)
  with Cons.IH [of "layout_step ps field st"] show ?case by auto
qed

lemma layout_step_nonneg:
  assumes ps: "ps = 4 \<or> ps = 8"
    and o: "0 \<le> offset" "offset < 2 ^ 31 + 8"
    and inv: "slots_ok 0 layout offset" "\<forall>e \<in> set layout. entry_ok ps e"
    and step: "layout_step ps field (offset, layout) = (offset', layout')"
    and nn: "\<forall>e \<in> set layout'. 0 \<le> le_offset e"
  shows "0 \<le> offset' \<and> offset' < 2 ^ 31 + 8 \<and> slots_ok 0 layout' offset'
       \<and> (\<forall>e \<in> set layout'. entry_ok ps e)
       \<and> map le_name layout' = map le_name layout @ [fst field]"
proof -
  let ?e = "layout_entry ps field offset"
  from step have l: "layout' = layout @ [?e]" and o': "offset' = le_offset ?e + le_size ?e"
    by (auto simp: layout_step_def Let_def)
  have sz: "le_size ?e \<in> {1, 2, 4, 8}" using ps by (rule layout_entry_size)
  with ps have m: "max 1 (min (le_size ?e) ps) = min (le_size ?e) ps"
    and a: "min (le_size ?e) ps \<in> {1, 2, 4, 8}"
    by auto
  from a have a8: "min (le_size ?e) ps \<le> 8" by auto
  have off: "le_offset ?e = alignOffset offset (min (le_size ?e) ps)"
    using layout_entry_offset [of ps field offset] m by simp
  have "0 \<le> le_offset ?e" using nn l by simp
  then have "0 \<le> alignOffset offset (min (le_size ?e) ps)" by (simp only: off)
  with a o have b: "offset \<le> le_offset ?e \<and> le_offset ?e < offset + min (le_size ?e) ps"
    unfolding off by (rule alignOffset_nonneg)
  have lt: "le_offset ?e < 2 ^ 31" unfolding off by (rule alignOffset_lt)
  from sz have s8: "0 < le_size ?e" "le_size ?e \<le> 8" by auto
  from b a8 have b8: "offset \<le> le_offset ?e" by auto
  have 1: "0 \<le> offset'" using o' b8 o(1) s8 by linarith
  have 2: "offset' < 2 ^ 31 + 8" using o' lt s8 by linarith
  have 3: "slots_ok 0 layout' offset'"
    unfolding l o' using inv(1) b8 s8 by (intro slots_ok_snoc) auto
  have 4: "\<forall>e \<in> set layout'. entry_ok ps e"
    using inv(2) l layout_entry_ok [of ps field offset] by simp
  have 5: "map le_name layout' = map le_name layout @ [fst field]"
    using l layout_entry_name [of ps field offset] by simp
  from 1 2 3 4 5 show ?thesis by blast
qed

lemma fold_layout_step_nonneg:
  assumes ps: "ps = 4 \<or> ps = 8"
  shows "0 \<le> fst st \<Longrightarrow> fst st < 2 ^ 31 + 8 \<Longrightarrow>
         slots_ok 0 (snd st) (fst st) \<Longrightarrow> \<forall>e \<in> set (snd st). entry_ok ps e \<Longrightarrow>
         \<forall>e \<in> set (snd (fold (layout_step ps) fieldDefs st)). 0 \<le> le_offset e \<Longrightarrow>
         0 \<le> fst (fold (layout_step ps) fieldDefs st)
         \<and> fst (fold (layout_step ps) fieldDefs st) < 2 ^ 31 + 8
         \<and> slots_ok 0 (snd (fold (layout_step ps) fieldDefs st)) (fst (fold (layout_step ps) fieldDefs st))
         \<and> (\<forall>e \<in> set (snd (fold (layout_step ps) fieldDefs st)). entry_ok ps e)
         \<and> map le_name (snd (fold (layout_step ps) fieldDefs st))
             = map le_name (snd st) @ map fst fieldDefs"
proof (induction fieldDefs arbitrary: st)
  case Nil
  then show ?case by simp
next
  case (Cons field fieldDefs)
  obtain offset layout where st: "st = (offset, layout)" by (cases st)
  obtain offset' layout' where s: "layout_step ps field (offset, layout) = (offset', layout')"
    by (cases "layout_step ps field (offset, layout)")
  have f: "fold (layout_step ps) (field # fieldDefs) st
      = fold (layout_step ps) fieldDefs (offset', layout')"
    using st s by simp
  have nn': "\<forall>e \<in> set (snd (fold (layout_step ps) fieldDefs (offset', layout'))). 0 \<le> le_offset e"
    using Cons.prems(5) by (simp only: f)
  have "set layout' \<subseteq> set (snd (fold (layout_step ps) fieldDefs (offset', layout')))"
    using fold_layout_step_prefix [of "(offset', layout')" ps fieldDefs] by simp
  with nn' have nn: "\<forall>e \<in> set layout'. 0 \<le> le_offset e" by blast
  have w: "0 \<le> offset' \<and> offset' < 2 ^ 31 + 8 \<and> slots_ok 0 layout' offset'
       \<and> (\<forall>e \<in> set layout'. entry_ok ps e)
       \<and> map le_name layout' = map le_name layout @ [fst field]"
    using ps _ _ _ _ s nn
  proof (rule layout_step_nonneg)
    show "0 \<le> offset" "offset < 2 ^ 31 + 8" "slots_ok 0 layout offset" "\<forall>e \<in> set layout. entry_ok ps e"
      using Cons.prems st by simp_all
  qed
  have "0 \<le> fst (fold (layout_step ps) fieldDefs (offset', layout'))
         \<and> fst (fold (layout_step ps) fieldDefs (offset', layout')) < 2 ^ 31 + 8
         \<and> slots_ok 0 (snd (fold (layout_step ps) fieldDefs (offset', layout')))
              (fst (fold (layout_step ps) fieldDefs (offset', layout')))
         \<and> (\<forall>e \<in> set (snd (fold (layout_step ps) fieldDefs (offset', layout'))). entry_ok ps e)
         \<and> map le_name (snd (fold (layout_step ps) fieldDefs (offset', layout')))
             = map le_name (snd (offset', layout')) @ map fst fieldDefs"
  proof (rule Cons.IH)
    show "0 \<le> fst (offset', layout')" "fst (offset', layout') < 2 ^ 31 + 8"
      "slots_ok 0 (snd (offset', layout')) (fst (offset', layout'))"
      "\<forall>e \<in> set (snd (offset', layout')). entry_ok ps e"
      using w by simp_all
    show "\<forall>e \<in> set (snd (fold (layout_step ps) fieldDefs (offset', layout'))). 0 \<le> le_offset e"
      by (rule nn')
  qed
  with st s w show ?case by simp
qed

lemma defineStruct_wf:
  assumes nn: "\<forall>e \<in> set (sd_layout (defineStruct h fieldDefs options)). 0 \<le> le_offset e"
    and sz: "0 \<le> sd_size (defineStruct h fieldDefs options)"
  shows "slots_ok 0 (sd_layout (defineStruct h fieldDefs options)) (sd_size (defineStruct h fieldDefs options))
       \<and> (\<forall>e \<in> set (sd_layout (defineStruct h fieldDefs options)). entry_ok (getPointerSize h) e)
       \<and> map le_name (sd_layout (defineStruct h fieldDefs options)) = map fst fieldDefs"
proof -
  let ?ps = "getPointerSize h"
  let ?st = "fold (layout_step ?ps) fieldDefs (0, [])"
  have ps: "?ps = 4 \<or> ?ps = 8" by (rule getPointerSize_cases)
  have l: "sd_layout (defineStruct h fieldDefs options) = snd ?st"
    and s: "sd_size (defineStruct h fieldDefs options) = alignOffset (fst ?st) ?ps"
    by (simp_all add: defineStruct_def Let_def)
  have w: "0 \<le> fst ?st \<and> fst ?st < 2 ^ 31 + 8
         \<and> slots_ok 0 (snd ?st) (fst ?st)
         \<and> (\<forall>e \<in> set (snd ?st). entry_ok ?ps e)
         \<and> map le_name (snd ?st) = map le_name (snd (0 :: int, [] :: LayoutEntry list)) @ map fst fieldDefs"
    using ps
  proof (rule fold_layout_step_nonneg)
    show "\<forall>e \<in> set (snd ?st). 0 \<le> le_offset e" using nn by (simp only: l)
  qed simp_all
  have a: "?ps \<in> {1, 2, 4, 8}" using ps by auto
  have "0 \<le> alignOffset (fst ?st) ?ps" using sz by (simp only: s)
  with a w have b: "fst ?st \<le> alignOffset (fst ?st) ?ps"
    using alignOffset_nonneg [of ?ps "fst ?st"] by blast
  have "slots_ok 0 (snd ?st) (alignOffset (fst ?st) ?ps)"
    using w b slots_ok_mono by blast
  then show ?thesis
    using w by (simp add: l s)
qed

section \<open>Properties of the scalar encoding\<close>

lemma length_le_bytes [simp]: "length (le_bytes n v) = n"
  by (induction n arbitrary: v) simp_all

lemma le_val_le_bytes: "le_val (le_bytes n v) = v mod 256 ^ n"
proof (induction n arbitrary: v)
  case 0
  then show ?case by simp
next
  case (Suc n)
  have "uint (word_of_int v :: byte) = v mod 256"
    by (simp add: uint_word_of_int)
  then have "le_val (le_bytes (Suc n) v) = v mod 256 + 256 * ((v div 256) mod 256 ^ n)"
    by (simp add: Suc.IH)
  also have "\<dots> = v mod (256 * 256 ^ n)"
    using zmod_zmult2_eq [of "256 ^ n" v 256] by simp
  finally show ?case by simp
qed

lemma le_bytes_nth: "i < n \<Longrightarrow> le_bytes n v ! i = word_of_int (v div 256 ^ i)"
proof (induction n arbitrary: v i)
  case 0
  then show ?case by simp
next
  case (Suc n)
  show ?case
  proof (cases i)
    case 0
    then show ?thesis by simp
  next
    case (Suc j)
    with Suc.prems have "j < n" by simp
    then have "le_bytes n (v div 256) ! j = word_of_int (v div 256 div 256 ^ j)"
      by (rule Suc.IH)
    moreover have "v div 256 div 256 ^ j = v div (256 * 256 ^ j)"
      using zdiv_zmult2_eq [of "256 ^ j" v 256] by simp
    ultimately show ?thesis using Suc by simp
  qed
qed

lemma length_splice:
  "in_bounds view offset (length bs) \<Longrightarrow> length (splice view offset bs) = length view"
  by (auto simp: in_bounds_def splice_def)

lemma slice_splice_same:
  "in_bounds view offset (length bs) \<Longrightarrow> slice (splice view offset bs) offset (length bs) = bs"
  by (auto simp: in_bounds_def splice_def slice_def)

lemma in_bounds_splice:
  "in_bounds view offset (length bs) \<Longrightarrow>
   in_bounds (splice view offset bs) offset' n = in_bounds view offset' n"
  by (simp add: in_bounds_def length_splice [unfolded in_bounds_def])

lemma in_bounds_mono: "in_bounds view offset n \<Longrightarrow> m \<le> n \<Longrightarrow> in_bounds view offset m"
  by (auto simp: in_bounds_def)

lemma setUint_le:
  "in_bounds view offset n \<Longrightarrow> setUint n view offset v True = Inr (splice view offset (le_bytes n v))"
  by (simp add: setUint_def)

lemma getUint_le:
  "in_bounds view offset n \<Longrightarrow> getUint n view offset True = Inr (le_val (slice view offset n))"
  by (simp add: getUint_def)

lemma getUint_setUint:
  assumes "in_bounds view offset n"
  shows "getUint n (splice view offset (le_bytes n v)) offset True = Inr (v mod 256 ^ n)"
proof -
  have b: "in_bounds view offset (length (le_bytes n v))" using assms by simp
  have "in_bounds (splice view offset (le_bytes n v)) offset n"
    using in_bounds_splice [OF b, of offset n] assms by simp
  moreover have "slice (splice view offset (le_bytes n v)) offset n = le_bytes n v"
    using slice_splice_same [OF b] by simp
  ultimately show ?thesis by (simp add: getUint_def le_val_le_bytes)
qed

lemma u64_write_read:
  assumes b: "in_bounds view offset 8" and n: "0 \<le> n" "n < 2 ^ 64"
  shows "ebind (writePrimitive h view U64 offset (JBig n))
           (\<lambda>view'. readPrimitive h view' U64 offset) = Inr (JBig n)"
proof -
  have w: "writePrimitive h view U64 offset (JBig n) = Inr (splice view offset (le_bytes 8 n))"
    using b by (simp add: writePrimitive_def setUint_le)
  have "n mod 256 ^ 8 = n" using n by simp
  then have "readPrimitive h (splice view offset (le_bytes 8 n)) U64 offset = Inr (JBig n)"
    using getUint_setUint [OF b, of n] by (simp add: readPrimitive_def)
  with w show ?thesis by (simp add: ebind_def)
qed

lemma excess_small: "a < 2 ^ 53 \<Longrightarrow> excess a = 0"
  by (simp add: excess.simps)


text \<open>
  C8: every multi-byte scalar is written and read in little-endian order: the bytes that
  \<open>writePrimitive\<close> stores are \<open>le_bytes\<close> of the value, whose \<open>i\<close>-th byte is
  \<open>value div 256 ^ i\<close>, and \<open>readPrimitive\<close> decodes \<open>le_val\<close> of the bytes, for the
  integer types, the booleans of four bytes, the floats (through their IEEE bit
  patterns) and pointers of either width, wherever the scalar lies within the buffer.
  A \<open>u64\<close> field takes a BigInt, stores all 64 bits of it and reads a BigInt, so every
  value below \<open>2 ^ 64\<close>, above \<open>2 ^ 53\<close> too, comes back as it was written; no
  conversion to a Number, which would round it (\<open>js_Number\<close> of a BigInt is
  \<open>round_double\<close>), lies on the way.
\<close>

theorem little_endian_scalars:
  "(\<forall>i<k. le_bytes k n ! i = word_of_int (n div 256 ^ i))
   \<and> (in_bounds view offset 2 \<longrightarrow>
        writePrimitive h view U16 offset (JNum n) = Inr (splice view offset (le_bytes 2 n))
        \<and> writePrimitive h view I16 offset (JNum n) = Inr (splice view offset (le_bytes 2 n))
        \<and> readPrimitive h view U16 offset = Inr (JNum (le_val (slice view offset 2)))
        \<and> readPrimitive h view I16 offset
            = Inr (JNum (let u = le_val (slice view offset 2) in if u \<ge> 2 ^ 15 then u - 2 ^ 16 else u)))
   \<and> (in_bounds view offset 4 \<longrightarrow>
        writePrimitive h view U32 offset (JNum n) = Inr (splice view offset (le_bytes 4 n))
        \<and> writePrimitive h view I32 offset (JNum n) = Inr (splice view offset (le_bytes 4 n))
        \<and> writePrimitive h view Bool_u32 offset v
            = Inr (splice view offset (le_bytes 4 (if truthy v then 1 else 0)))
        \<and> writePrimitive h view F32 offset (JNum n)
            = Inr (splice view offset (le_bytes 4 (uint (host_float32_bits h (Some n)))))
        \<and> readPrimitive h view U32 offset = Inr (JNum (le_val (slice view offset 4)))
        \<and> readPrimitive h view I32 offset
            = Inr (JNum (let u = le_val (slice view offset 4) in if u \<ge> 2 ^ 31 then u - 2 ^ 32 else u))
        \<and> readPrimitive h view Bool_u32 offset = Inr (JBool (le_val (slice view offset 4) \<noteq> 0))
        \<and> readPrimitive h view F32 offset
            = Inr (host_float32_value h (word_of_int (le_val (slice view offset 4)))))
   \<and> (in_bounds view offset 8 \<longrightarrow>
        writePrimitive h view U64 offset (JBig n) = Inr (splice view offset (le_bytes 8 n))
        \<and> writePrimitive h view F64 offset (JNum n)
            = Inr (splice view offset (le_bytes 8 (uint (host_float64_bits h (Some n)))))
        \<and> readPrimitive h view U64 offset = Inr (JBig (le_val (slice view offset 8)))
        \<and> readPrimitive h view F64 offset
            = Inr (host_float64_value h (word_of_int (le_val (slice view offset 8))))
        \<and> (0 \<le> n \<and> n < 2 ^ 64 \<longrightarrow>
             ebind (writePrimitive h view U64 offset (JBig n))
               (\<lambda>view'. readPrimitive h view' U64 offset) = Inr (JBig n)))
   \<and> (in_bounds view offset (nat (getPointerSize h)) \<longrightarrow>
        (pointerToBigInt h v = Inr p \<longrightarrow>
           writePrimitive h view Pointer offset v
             = Inr (splice view offset
                 (le_bytes (nat (getPointerSize h))
                    (if getPointerSize h = 8 then p else round_double p))))
        \<and> readPrimitive h view Pointer offset
            = Inr (JBig (le_val (slice view offset (nat (getPointerSize h))))))"
proof -
  have ps: "getPointerSize h = 4 \<or> getPointerSize h = 8"
    by (rule getPointerSize_cases)
  have nth: "\<forall>i<k. le_bytes k n ! i = word_of_int (n div 256 ^ i)"
    by (simp add: le_bytes_nth)
  have two: "in_bounds view offset 2 \<longrightarrow>
        writePrimitive h view U16 offset (JNum n) = Inr (splice view offset (le_bytes 2 n))
        \<and> writePrimitive h view I16 offset (JNum n) = Inr (splice view offset (le_bytes 2 n))
        \<and> readPrimitive h view U16 offset = Inr (JNum (le_val (slice view offset 2)))
        \<and> readPrimitive h view I16 offset
            = Inr (JNum (let u = le_val (slice view offset 2) in if u \<ge> 2 ^ 15 then u - 2 ^ 16 else u))"
    by (simp add: writePrimitive_def readPrimitive_def setInt_def getInt_def setUint_le getUint_le
        number_or_0_def nan_to_0_def Let_def)
  have four: "in_bounds view offset 4 \<longrightarrow>
        writePrimitive h view U32 offset (JNum n) = Inr (splice view offset (le_bytes 4 n))
        \<and> writePrimitive h view I32 offset (JNum n) = Inr (splice view offset (le_bytes 4 n))
        \<and> writePrimitive h view Bool_u32 offset v
            = Inr (splice view offset (le_bytes 4 (if truthy v then 1 else 0)))
        \<and> writePrimitive h view F32 offset (JNum n)
            = Inr (splice view offset (le_bytes 4 (uint (host_float32_bits h (Some n)))))
        \<and> readPrimitive h view U32 offset = Inr (JNum (le_val (slice view offset 4)))
        \<and> readPrimitive h view I32 offset
            = Inr (JNum (let u = le_val (slice view offset 4) in if u \<ge> 2 ^ 31 then u - 2 ^ 32 else u))
        \<and> readPrimitive h view Bool_u32 offset = Inr (JBool (le_val (slice view offset 4) \<noteq> 0))
        \<and> readPrimitive h view F32 offset
            = Inr (host_float32_value h (word_of_int (le_val (slice view offset 4))))"
    by (simp add: writePrimitive_def readPrimitive_def setInt_def getInt_def setUint_le getUint_le
        number_or_0_def nan_to_0_def Let_def)
  have eight: "in_bounds view offset 8 \<longrightarrow>
        writePrimitive h view U64 offset (JBig n) = Inr (splice view offset (le_bytes 8 n))
        \<and> writePrimitive h view F64 offset (JNum n)
            = Inr (splice view offset (le_bytes 8 (uint (host_float64_bits h (Some n)))))
        \<and> readPrimitive h view U64 offset = Inr (JBig (le_val (slice view offset 8)))
        \<and> readPrimitive h view F64 offset
            = Inr (host_float64_value h (word_of_int (le_val (slice view offset 8))))
        \<and> (0 \<le> n \<and> n < 2 ^ 64 \<longrightarrow>
             ebind (writePrimitive h view U64 offset (JBig n))
               (\<lambda>view'. readPrimitive h view' U64 offset) = Inr (JBig n))"
    using u64_write_read [of view offset n h]
    by (simp add: writePrimitive_def readPrimitive_def setUint_le getUint_le
        number_or_0_def nan_to_0_def)
  have pointer: "in_bounds view offset (nat (getPointerSize h)) \<longrightarrow>
        (pointerToBigInt h v = Inr p \<longrightarrow>
           writePrimitive h view Pointer offset v
             = Inr (splice view offset
                 (le_bytes (nat (getPointerSize h))
                    (if getPointerSize h = 8 then p else round_double p))))
        \<and> readPrimitive h view Pointer offset
            = Inr (JBig (le_val (slice view offset (nat (getPointerSize h)))))"
    using ps by (auto simp: writePrimitive_def readPrimitive_def setUint_le getUint_le)
  show ?thesis
    using nth two four eight pointer by (intro conjI)
qed

lemma le_bytes_8: "le_bytes 8 v = le_bytes (Suc (Suc (Suc (Suc (Suc (Suc (Suc (Suc 0)))))))) v"
  by (simp add: eval_nat_numeral)

lemma le_bytes_4: "le_bytes 4 v = le_bytes (Suc (Suc (Suc (Suc 0)))) v"
  by (simp add: eval_nat_numeral)

lemma number_of_bigint_rounds:
  "js_Number h (JBig 9007199254740993) = Some 9007199254740992"
proof -
  have 1: "excess 9007199254740993 = Suc (excess 4503599627370496)"
    by (subst excess.simps) simp
  have 2: "excess 4503599627370496 = 0"
    by (rule excess_small) simp
  show ?thesis
    by (simp add: round_double_def 1 2 Let_def)
qed

theorem little_endian_scalars_witness:
  "writePrimitive deno_without_offset [0, 0, 0, 0, 0, 0, 0, 0] U32 4 (JNum 0x11223344)
     = Inr [0, 0, 0, 0, 0x44, 0x33, 0x22, 0x11]
   \<and> writePrimitive deno_without_offset [0, 0, 0, 0, 0, 0, 0, 0] U64 0 (JBig 9007199254740993)
     = Inr [1, 0, 0, 0, 0, 0, 0x20, 0]
   \<and> ebind (writePrimitive deno_without_offset [0, 0, 0, 0, 0, 0, 0, 0] U64 0 (JBig 9007199254740993))
        (\<lambda>view'. readPrimitive deno_without_offset view' U64 0) = Inr (JBig 9007199254740993)
   \<and> js_Number deno_without_offset (JBig 9007199254740993) = Some 9007199254740992"
proof -
  have b: "in_bounds [0, 0, 0, 0, 0, 0, 0, 0] 0 8" by (simp add: in_bounds_def)
  have b4: "in_bounds [0, 0, 0, 0, 0, 0, 0, 0] 4 4" by (simp add: in_bounds_def)
  have 1: "splice [0, 0, 0, 0, 0, 0, 0, 0] 4 (le_bytes 4 0x11223344) = [0, 0, 0, 0, 0x44, 0x33, 0x22, 0x11]"
    unfolding le_bytes_4 by (simp add: splice_def)
  have 2: "splice [0, 0, 0, 0, 0, 0, 0, 0] 0 (le_bytes 8 9007199254740993) = [1, 0, 0, 0, 0, 0, 0x20, 0]"
    unfolding le_bytes_8 by (simp add: splice_def)
  have u32: "writePrimitive deno_without_offset [0, 0, 0, 0, 0, 0, 0, 0] U32 4 (JNum 0x11223344)
      = Inr (splice [0, 0, 0, 0, 0, 0, 0, 0] 4 (le_bytes 4 0x11223344))"
    using little_endian_scalars [of 4 "0x11223344" "[0, 0, 0, 0, 0, 0, 0, 0]" 4 deno_without_offset JNull 0] b4
    by blast
  have u64: "writePrimitive deno_without_offset [0, 0, 0, 0, 0, 0, 0, 0] U64 0 (JBig 9007199254740993)
      = Inr (splice [0, 0, 0, 0, 0, 0, 0, 0] 0 (le_bytes 8 9007199254740993))"
    using little_endian_scalars [of 8 9007199254740993 "[0, 0, 0, 0, 0, 0, 0, 0]" 0 deno_without_offset JNull 0] b
    by blast
  have "(0::int) \<le> 9007199254740993 \<and> (9007199254740993::int) < 2 ^ 64" by simp
  then have rt: "ebind (writePrimitive deno_without_offset [0, 0, 0, 0, 0, 0, 0, 0] U64 0 (JBig 9007199254740993))
        (\<lambda>view'. readPrimitive deno_without_offset view' U64 0) = Inr (JBig 9007199254740993)"
    using little_endian_scalars [of 8 9007199254740993 "[0, 0, 0, 0, 0, 0, 0, 0]" 0 deno_without_offset JNull 0] b
    by blast
  show ?thesis
    using u32 u64 rt number_of_bigint_rounds [of deno_without_offset] by (simp only: 1 2)
qed

section \<open>Properties of \<open>unpack\<close>\<close>

lemma ebind_Inr [simp]: "ebind (Inr x) f = f x"
  by (simp add: ebind_def)

lemma ebind_Inl [simp]: "ebind (Inl e) f = Inl e"
  by (simp add: ebind_def)

lemma ebind_assoc: "ebind (ebind r f) g = ebind r (\<lambda>x. ebind (f x) g)"
  by (cases r) simp_all

lemma unpack_loop_append:
  "unpack_loop h layout view (xs @ ys) out
     = ebind (unpack_loop h layout view xs out) (unpack_loop h layout view ys)"
proof (induction xs arbitrary: out)
  case Nil
  then show ?case by simp
next
  case (Cons x xs)
  then show ?case
    by (cases "unpack_entry h layout view x out") simp_all
qed

lemma decode_entry_null:
  assumes "le_kind entry = K_char_ptr \<or> le_kind entry = K_array"
    and "readPrimitive h view Pointer (le_offset entry) = Inr (JBig 0)"
  shows "decode_entry h layout view entry out
           = ebind (getLengthFieldValue h layout view out (length_field layout entry))
               (\<lambda>len. Inr (if le_kind entry = K_char_ptr then JStr [] else JArr []))"
  using assms by (auto simp: decode_entry_def)

text \<open>
  C5 as the claim states it fails: a string field with a null pointer and the length 5
  in its length field unpacks, to the empty string, beside the length.
\<close>

theorem unpack_null_pointer_counterexample:
  "unpack (deno_host []) (defineStruct (deno_host []) counted_string_fields no_struct_options)
     [5, 0, 0, 0, 0, 0, 0, 0, 0, 0, 0, 0, 0, 0, 0, 0]
   = Inr (object_literal [(''len'', JNum 5), (''name'', JStr [])])"
  by (simp add: unpack_def defineStruct_def counted_string_fields_def no_struct_options_def
      no_options_def layout_step_def layout_entry_def getPointerSize_def deno_host_def
      sample_engine_def empty_object_def
      alignOffset_def unpack_entry_def decode_entry_def readPrimitive_def getUint_def in_bounds_def
      slice_def set_prop_fresh length_field_def getLengthFieldValue_def get_prop_literal len_le_0_def)

text \<open>
  C5 (amended): when a string or array field of a struct holds a null pointer, \<open>unpack\<close>
  gives that field the empty string or the empty array, whatever its length field holds,
  and goes on with the fields after it; it does not fail for the null pointer. (The one
  failure that the field can meet is that of reading its length field.)
\<close>

theorem unpack_null_pointer:
  assumes "sd_layout sd = pre @ entry # post"
    and "le_kind entry = K_char_ptr \<or> le_kind entry = K_array"
    and "readPrimitive h buffer Pointer (le_offset entry) = Inr (JBig 0)"
  shows "unpack h sd buffer
           = ebind (unpack_loop h (sd_layout sd) buffer pre empty_object)
               (\<lambda>out. ebind (getLengthFieldValue h (sd_layout sd) buffer out
                                (length_field (sd_layout sd) entry))
                  (\<lambda>len. unpack_loop h (sd_layout sd) buffer post
                     (set_prop out (le_name entry)
                        (let v = (if le_kind entry = K_char_ptr then JStr [] else JArr [])
                         in case le_unpackTransform entry of None \<Rightarrow> v | Some f \<Rightarrow> f v))))"
proof -
  have 1: "unpack h sd buffer
      = ebind (unpack_loop h (sd_layout sd) buffer pre empty_object)
          (unpack_loop h (sd_layout sd) buffer (entry # post))"
    unfolding unpack_def by (subst assms(1)) (rule unpack_loop_append)
  have 2: "unpack_loop h (sd_layout sd) buffer (entry # post)
      = (\<lambda>out. ebind (getLengthFieldValue h (sd_layout sd) buffer out
                        (length_field (sd_layout sd) entry))
          (\<lambda>len. unpack_loop h (sd_layout sd) buffer post
             (set_prop out (le_name entry)
                (let v = (if le_kind entry = K_char_ptr then JStr [] else JArr [])
                 in case le_unpackTransform entry of None \<Rightarrow> v | Some f \<Rightarrow> f v))))"
  proof (rule ext)
    fix out
    show "unpack_loop h (sd_layout sd) buffer (entry # post) out
      = ebind (getLengthFieldValue h (sd_layout sd) buffer out (length_field (sd_layout sd) entry))
          (\<lambda>len. unpack_loop h (sd_layout sd) buffer post
             (set_prop out (le_name entry)
                (let v = (if le_kind entry = K_char_ptr then JStr [] else JArr [])
                 in case le_unpackTransform entry of None \<Rightarrow> v | Some f \<Rightarrow> f v)))"
      using decode_entry_null [OF assms(2,3), of "sd_layout sd" out]
      by (cases "getLengthFieldValue h (sd_layout sd) buffer out (length_field (sd_layout sd) entry)")
        (simp_all add: unpack_entry_def Let_def)
  qed
  show ?thesis unfolding 1 2 ..
qed

lemma getPointerSize_deno_host: "getPointerSize (deno_host mem) = 8"
  by (simp add: getPointerSize_def deno_host_def sample_engine_def)

lemma counted_layout:
  "sd_layout (defineStruct (deno_host mem) counted_string_fields no_struct_options)
     = [counted_len_entry] @ counted_name_entry # []"
  by (simp add: defineStruct_def counted_string_fields_def getPointerSize_deno_host
      no_options_def layout_step_def layout_entry_def alignOffset_def
      counted_len_entry_def counted_name_entry_def)

theorem unpack_null_pointer_witness:
  "unpack (deno_host []) (defineStruct (deno_host []) counted_string_fields no_struct_options)
     [9, 0, 0, 0, 0, 0, 0, 0, 0, 0, 0, 0, 0, 0, 0, 0]
   = Inr (object_literal [(''len'', JNum 9), (''name'', JStr [])])"
proof -
  let ?sd = "defineStruct (deno_host []) counted_string_fields no_struct_options"
  let ?buf = "[9, 0, 0, 0, 0, 0, 0, 0, 0, 0, 0, 0, 0, 0, 0, 0] :: byte list"
  have k: "le_kind counted_name_entry = K_char_ptr \<or> le_kind counted_name_entry = K_array"
    by (simp add: counted_name_entry_def)
  have p: "readPrimitive (deno_host []) ?buf Pointer (le_offset counted_name_entry) = Inr (JBig 0)"
    by (simp add: readPrimitive_def getPointerSize_deno_host counted_name_entry_def getUint_def
        in_bounds_def slice_def)
  have l: "unpack_loop (deno_host []) (sd_layout ?sd) ?buf [counted_len_entry] empty_object
      = Inr (object_literal [(''len'', JNum 9)])"
    by (simp add: unpack_entry_def decode_entry_def counted_len_entry_def readPrimitive_def
        getUint_def in_bounds_def slice_def set_prop_fresh empty_object_def)
  have g: "getLengthFieldValue (deno_host []) (sd_layout ?sd) ?buf
      (object_literal [(''len'', JNum 9)])
      (length_field (sd_layout ?sd) counted_name_entry) = Inr (Some 9)"
    by (simp add: getLengthFieldValue_def length_field_def counted_name_entry_def get_prop_literal)
  have t: "unpack (deno_host []) ?sd ?buf
      = ebind (unpack_loop (deno_host []) (sd_layout ?sd) ?buf [counted_len_entry] empty_object)
          (\<lambda>out. ebind (getLengthFieldValue (deno_host []) (sd_layout ?sd) ?buf out
                           (length_field (sd_layout ?sd) counted_name_entry))
             (\<lambda>len. unpack_loop (deno_host []) (sd_layout ?sd) ?buf []
                (set_prop out (le_name counted_name_entry)
                   (let v = (if le_kind counted_name_entry = K_char_ptr then JStr [] else JArr [])
                    in case le_unpackTransform counted_name_entry of None \<Rightarrow> v | Some f \<Rightarrow> f v))))"
    using counted_layout [of "[]"] k p by (rule unpack_null_pointer)
  show ?thesis
    unfolding t l ebind_Inr g by (simp add: counted_name_entry_def set_prop_fresh)
qed

section \<open>Reading back what was written\<close>

lemma setUint_Inr:
  "setUint n view off x le = Inr view' \<longleftrightarrow>
   in_bounds view off n \<and> view' = splice view off (if le then le_bytes n x else rev (le_bytes n x))"
  by (auto simp: setUint_def)

lemma rev_le_bytes_1: "rev (le_bytes 1 x) = le_bytes 1 x"
  by simp

lemma getUint_setUint_be1:
  assumes "in_bounds view offset 1"
  shows "getUint 1 (splice view offset (le_bytes 1 v)) offset False = Inr (v mod 256)"
proof -
  have b: "in_bounds view offset (length (le_bytes 1 v))" using assms by simp
  have "in_bounds (splice view offset (le_bytes 1 v)) offset 1"
    using in_bounds_splice [OF b, of offset 1] assms by simp
  moreover have s: "slice (splice view offset (le_bytes 1 v)) offset 1 = le_bytes 1 v"
    using slice_splice_same [OF b] by simp
  moreover have "le_val (rev (le_bytes 1 v)) = v mod 256"
    unfolding rev_le_bytes_1 using le_val_le_bytes [of 1 v] by simp
  ultimately show ?thesis by (simp add: getUint_def)
qed

lemma getInt_setUint:
  assumes "in_bounds view offset n"
  shows "getInt n (splice view offset (le_bytes n v)) offset True
      = Inr (let u = v mod 256 ^ n in if u \<ge> 2 ^ (8 * n - 1) then u - 2 ^ (8 * n) else u)"
  using getUint_setUint [OF assms, of v] by (simp add: getInt_def Let_def)

lemma word_of_int_uint_mod_32: "(word_of_int (uint w mod 4294967296) :: 32 word) = w"
proof -
  have "uint w < 4294967296" using uint_lt2p [of w] by simp
  then have "uint w mod 4294967296 = uint w" by simp
  then show ?thesis by simp
qed

lemma word_of_int_uint_mod_64: "(word_of_int (uint w mod 18446744073709551616) :: 64 word) = w"
proof -
  have "uint w < 18446744073709551616" using uint_lt2p [of w] by simp
  then have "uint w mod 18446744073709551616 = uint w" by simp
  then show ?thesis by simp
qed

lemma write_read:
  assumes w: "writePrimitive h view t off v = Inr view'"
  shows "readPrimitive h view' t off = Inr (stored h t v)"
proof -
  have ps: "getPointerSize h = 4 \<or> getPointerSize h = 8" by (rule getPointerSize_cases)
  show ?thesis
  proof (cases t)
    case U8
    with w show ?thesis
      using getUint_setUint_be1 [of view off "nan_to_0 (number_or_0 h v)"]
      by (auto simp: writePrimitive_def readPrimitive_def stored_def setUint_Inr)
  next
    case Bool_u8
    with w show ?thesis
      using getUint_setUint_be1 [of view off "if truthy v then 1 else 0"]
      by (auto simp: writePrimitive_def readPrimitive_def stored_def setUint_Inr)
  next
    case Bool_u32
    with w show ?thesis
      using getUint_setUint [of view off 4 "if truthy v then 1 else 0"]
      by (auto simp: writePrimitive_def readPrimitive_def stored_def setUint_Inr)
  next
    case U16
    with w show ?thesis
      using getUint_setUint [of view off 2 "nan_to_0 (number_or_0 h v)"]
      by (auto simp: writePrimitive_def readPrimitive_def stored_def setUint_Inr)
  next
    case I16
    with w show ?thesis
      using getInt_setUint [of view off 2 "nan_to_0 (number_or_0 h v)"]
      by (auto simp: writePrimitive_def readPrimitive_def stored_def setUint_Inr setInt_def
          to_signed_def Let_def)
  next
    case U32
    with w show ?thesis
      using getUint_setUint [of view off 4 "nan_to_0 (number_or_0 h v)"]
      by (auto simp: writePrimitive_def readPrimitive_def stored_def setUint_Inr)
  next
    case I32
    with w show ?thesis
      using getInt_setUint [of view off 4 "nan_to_0 (number_or_0 h v)"]
      by (auto simp: writePrimitive_def readPrimitive_def stored_def setUint_Inr setInt_def
          to_signed_def Let_def)
  next
    case U64
    show ?thesis
    proof (cases "js_BigInt h (if nullish v then JNum 0 else v)")
      case (Inl e)
      with w U64 show ?thesis by (simp add: writePrimitive_def)
    next
      case (Inr b)
      with w U64 show ?thesis
        using getUint_setUint [of view off 8 b]
        by (auto simp: writePrimitive_def readPrimitive_def stored_def setUint_Inr)
    qed
  next
    case F32
    with w show ?thesis
      using getUint_setUint [of view off 4 "uint (host_float32_bits h (number_or_0 h v))"]
      by (auto simp: writePrimitive_def readPrimitive_def stored_def setUint_Inr
          word_of_int_uint_mod_32)
  next
    case F64
    with w show ?thesis
      using getUint_setUint [of view off 8 "uint (host_float64_bits h (number_or_0 h v))"]
      by (auto simp: writePrimitive_def readPrimitive_def stored_def setUint_Inr
          word_of_int_uint_mod_64)
  next
    case Pointer
    show ?thesis
    proof (cases "pointerToBigInt h v")
      case (Inl e)
      with w Pointer show ?thesis by (simp add: writePrimitive_def)
    next
      case (Inr p)
      with w Pointer ps show ?thesis
        using getUint_setUint [of view off 8 p] getUint_setUint [of view off 4 "round_double p"]
        by (auto simp: writePrimitive_def readPrimitive_def stored_def setUint_Inr)
    qed
  qed
qed



lemma stored_length:
  assumes "t \<in> {U8, U16, I16, U32, I32, U64}" "0 \<le> n" "n < 2 ^ (8 * psize h t - 1)"
  shows "stored h t (JNum n) = (if t = U64 then JBig n else JNum n)"
proof -
  from assms(1) consider "t = U8" | "t = U16" | "t = I16" | "t = U32" | "t = I32" | "t = U64"
    by auto
  then show ?thesis
  proof cases
    case 1
    with assms show ?thesis
      by (simp add: stored_def psize_def number_or_0_def nan_to_0_def)
  next
    case 2
    with assms show ?thesis
      by (simp add: stored_def psize_def number_or_0_def nan_to_0_def)
  next
    case 3
    with assms show ?thesis
      by (simp add: stored_def psize_def number_or_0_def nan_to_0_def to_signed_def Let_def)
  next
    case 4
    with assms show ?thesis
      by (simp add: stored_def psize_def number_or_0_def nan_to_0_def)
  next
    case 5
    with assms show ?thesis
      by (simp add: stored_def psize_def number_or_0_def nan_to_0_def to_signed_def Let_def)
  next
    case 6
    with assms show ?thesis
      by (simp add: stored_def psize_def)
  qed
qed

section \<open>Properties of \<open>pack\<close>\<close>

lemma slice_splice_before:
  assumes "in_bounds view pos (length bs)" "0 \<le> off" "off + int n \<le> pos"
  shows "slice (splice view pos bs) off n = slice view off n"
proof -
  from assms have a: "nat off + n \<le> nat pos" "nat pos \<le> length view"
    by (auto simp: in_bounds_def)
  then have "take n (drop (nat off) (take (nat pos) view @ bs @ drop (nat pos + length bs) view))
      = take n (drop (nat off) (take (nat pos) view))"
    by simp
  also have "\<dots> = take n (drop (nat off) view)"
    using a by (simp add: drop_take)
  finally show ?thesis by (simp add: slice_def splice_def)
qed

lemma slice_splice_after:
  assumes "in_bounds view pos (length bs)" "pos + int (length bs) \<le> off"
  shows "slice (splice view pos bs) off n = slice view off n"
proof -
  from assms have a: "nat pos + length bs \<le> nat off" "nat pos + length bs \<le> length view"
    by (auto simp: in_bounds_def)
  then have "drop (nat off) (take (nat pos) view @ bs @ drop (nat pos + length bs) view)
      = drop (nat off - (nat pos + length bs)) (drop (nat pos + length bs) view)"
    by simp
  also have "\<dots> = drop (nat off) view"
    using a by simp
  finally show ?thesis by (simp add: slice_def splice_def)
qed

lemma slice_splice_frame:
  assumes "in_bounds view pos (length bs)" "0 \<le> off"
    and "off + int n \<le> pos \<or> pos + int (length bs) \<le> off"
  shows "slice (splice view pos bs) off n = slice view off n"
  using assms slice_splice_before slice_splice_after by blast

lemma writePrimitive_cases:
  assumes "writePrimitive h view t off v = Inr view'"
  shows "\<exists>bs. view' = splice view off bs \<and> length bs = psize h t \<and> in_bounds view off (psize h t)
     \<and> (\<forall>view2 off2. in_bounds view2 off2 (psize h t) \<longrightarrow>
           writePrimitive h view2 t off2 v = Inr (splice view2 off2 bs))"
proof -
  have ps: "getPointerSize h = 4 \<or> getPointerSize h = 8" by (rule getPointerSize_cases)
  show ?thesis
  proof (cases t)
    case U64
    with assms show ?thesis
      by (cases "js_BigInt h (if nullish v then JNum 0 else v)")
        (auto simp: writePrimitive_def psize_def setUint_Inr intro!: exI)
  next
    case Pointer
    with assms ps show ?thesis
      by (cases "pointerToBigInt h v")
        (auto simp: writePrimitive_def psize_def setUint_Inr split: if_splits intro!: exI)
  qed (use assms in \<open>auto simp: writePrimitive_def psize_def setUint_Inr setInt_def intro!: exI\<close>)
qed

lemma writePrimitive_frame:
  assumes "writePrimitive h view t pos v = Inr view'" "0 \<le> off" "apart (off, n) (pos, psize h t)"
  shows "slice view' off n = slice view off n"
proof -
  from assms(1) obtain bs where "view' = splice view pos bs" "length bs = psize h t"
    "in_bounds view pos (psize h t)"
    using writePrimitive_cases by blast
  with assms(2,3) show ?thesis
    by (simp add: apart_def slice_splice_frame)
qed

lemma writePrimitive_length:
  assumes "writePrimitive h view t pos v = Inr view'"
  shows "length view' = length view"
proof -
  from assms(1) obtain bs where "view' = splice view pos bs" "length bs = psize h t"
    "in_bounds view pos (psize h t)"
    using writePrimitive_cases by blast
  then show ?thesis by (simp add: length_splice)
qed

lemma readPrimitive_slice:
  assumes "in_bounds view off (psize h t)" "in_bounds view2 off2 (psize h t)"
    and "slice view off (psize h t) = slice view2 off2 (psize h t)"
  shows "readPrimitive h view t off = readPrimitive h view2 t off2"
proof -
  have ps: "getPointerSize h = 4 \<or> getPointerSize h = 8" by (rule getPointerSize_cases)
  show ?thesis
    using assms ps
    by (cases t) (auto simp: readPrimitive_def psize_def getUint_def getInt_def)
qed

lemma write_length_frame:
  assumes "write_length h layout entry view m = Inr view'" "0 \<le> off"
    and "le_kind entry = K_char_ptr \<or> le_kind entry = K_array"
    and "\<forall>r \<in> set (write_ranges h layout entry). apart (off, n) r"
  shows "slice view' off n = slice view off n \<and> length view' = length view"
proof (cases "has_lengthOf entry")
  case False
  with assms(1) show ?thesis by (simp add: write_length_def)
next
  case True
  show ?thesis
  proof (cases "byName layout (the (le_lengthOf entry))")
    case None
    with True assms(1) show ?thesis by (simp add: write_length_def)
  next
    case (Some lenField)
    with True assms(1) have w: "writePrimitive h view (le_type lenField) (le_offset lenField) (JNum m) = Inr view'"
      by (simp add: write_length_def)
    from Some True assms(3,4) have "apart (off, n) (le_offset lenField, psize h (le_type lenField))"
      by (auto simp: write_ranges_def)
    with w assms(2) show ?thesis
      using writePrimitive_frame writePrimitive_length by blast
  qed
qed

lemma write_payload_frame:
  assumes "write_payload h addr entry payload (view, allocated) = Inr (view', allocated')"
    and "0 \<le> off" "apart (off, n) (le_offset entry, psize h Pointer)"
  shows "slice view' off n = slice view off n \<and> length view' = length view
       \<and> (allocated' = allocated \<or> allocated' = allocated @ [(addr (length allocated), payload)])"
proof (cases "length payload = 0")
  case True
  with assms(1) obtain view1 where "writePrimitive h view Pointer (le_offset entry) (JNum 0) = Inr view1"
    and "view' = view1" "allocated' = allocated"
    by (cases "writePrimitive h view Pointer (le_offset entry) (JNum 0)")
      (auto simp: write_payload_def)
  with assms(2,3) show ?thesis
    using writePrimitive_frame writePrimitive_length by blast
next
  case False
  with assms(1) obtain p view1 where "ptr h (addr (length allocated)) = Inr p"
    and "writePrimitive h view Pointer (le_offset entry) p = Inr view1"
    and "view' = view1" "allocated' = allocated @ [(addr (length allocated), payload)]"
    by (cases "ptr h (addr (length allocated))";
        cases "writePrimitive h view Pointer (le_offset entry) (projr (ptr h (addr (length allocated))))")
      (auto simp: write_payload_def)
  with assms(2,3) show ?thesis
    using writePrimitive_frame writePrimitive_length by blast
qed

lemma ebind_eq_Inr: "ebind r f = Inr y \<longleftrightarrow> (\<exists>x. r = Inr x \<and> f x = Inr y)"
  by (cases r) simp_all

lemma write_ranges_own_prim:
  "le_kind entry = K_primitive \<or> le_kind entry = K_enum \<Longrightarrow>
   (le_offset entry, psize h (le_type entry)) \<in> set (write_ranges h layout entry)"
  by (auto simp: write_ranges_def)

lemma write_ranges_own_ptr:
  assumes "le_kind entry = K_char_ptr \<or> le_kind entry = K_array"
  shows "(le_offset entry, psize h Pointer) \<in> set (write_ranges h layout entry)"
proof -
  from assms have "\<not> (le_kind entry = K_primitive \<or> le_kind entry = K_enum)" by auto
  then have "write_ranges h layout entry = (le_offset entry, psize h Pointer) #
           (if has_lengthOf entry
            then (case byName layout (the (le_lengthOf entry)) of
                    None \<Rightarrow> []
                  | Some lenField \<Rightarrow> [(le_offset lenField, psize h (le_type lenField))])
            else [])"
    unfolding write_ranges_def by (rule if_not_P)
  then show ?thesis by (simp only: list.set insertI1)
qed

lemma write_ranges_target:
  "le_kind entry = K_char_ptr \<or> le_kind entry = K_array \<Longrightarrow> has_lengthOf entry \<Longrightarrow>
   byName layout (the (le_lengthOf entry)) = Some lenField \<Longrightarrow>
   (le_offset lenField, psize h (le_type lenField)) \<in> set (write_ranges h layout entry)"
  by (auto simp: write_ranges_def)

lemma pack_entry_frame:
  assumes p: "pack_entry h layout addr input entry (view, allocated) = Inr (view', allocated')"
    and off: "0 \<le> off"
    and ap: "\<forall>r \<in> set (write_ranges h layout entry). apart (off, n) r"
  shows "slice view' off n = slice view off n \<and> length view' = length view"
proof (cases "le_kind entry")
  case K_primitive
  with p have w: "writePrimitive h view (le_type entry) (le_offset entry) (field_value h input entry) = Inr view'"
    by (auto simp: pack_entry_def Let_def ebind_eq_Inr)
  from K_primitive ap have a: "apart (off, n) (le_offset entry, psize h (le_type entry))"
    using write_ranges_own_prim [of entry h layout] by auto
  show ?thesis
    using writePrimitive_frame [OF w off a] writePrimitive_length [OF w] by simp
next
  case K_enum
  with p obtain m where w: "writePrimitive h view (le_type entry) (le_offset entry) m = Inr view'"
    by (auto simp: pack_entry_def Let_def ebind_eq_Inr split: option.splits)
  from K_enum ap have a: "apart (off, n) (le_offset entry, psize h (le_type entry))"
    using write_ranges_own_prim [of entry h layout] by auto
  show ?thesis
    using writePrimitive_frame [OF w off a] writePrimitive_length [OF w] by simp
next
  case K_char_ptr
  with p obtain payload st1 m where 1: "write_payload h addr entry payload (view, allocated) = Inr st1"
    and 2: "write_length h layout entry (fst st1) m = Inr view'"
    by (auto simp: pack_entry_def Let_def ebind_eq_Inr)
  from K_char_ptr ap have a: "apart (off, n) (le_offset entry, psize h Pointer)"
    using write_ranges_own_ptr [of entry h layout] by auto
  from 1 a off have "slice (fst st1) off n = slice view off n \<and> length (fst st1) = length view"
    using write_payload_frame [of h addr entry payload view allocated "fst st1" "snd st1" off n]
    by simp
  moreover from 2 off K_char_ptr ap
  have "slice view' off n = slice (fst st1) off n \<and> length view' = length (fst st1)"
    using write_length_frame by blast
  ultimately show ?thesis by simp
next
  case K_array
  with p obtain payload st1 m where 1: "write_payload h addr entry payload (view, allocated) = Inr st1"
    and 2: "write_length h layout entry (fst st1) m = Inr view'"
    by (auto simp: pack_entry_def Let_def ebind_eq_Inr)
  from K_array ap have a: "apart (off, n) (le_offset entry, psize h Pointer)"
    using write_ranges_own_ptr [of entry h layout] by auto
  from 1 a off have "slice (fst st1) off n = slice view off n \<and> length (fst st1) = length view"
    using write_payload_frame [of h addr entry payload view allocated "fst st1" "snd st1" off n]
    by simp
  moreover from 2 off K_array ap
  have "slice view' off n = slice (fst st1) off n \<and> length view' = length (fst st1)"
    using write_length_frame by blast
  ultimately show ?thesis by simp
qed


lemma pack_loop_append:
  "pack_loop h layout addr input (xs @ ys) st
     = ebind (pack_loop h layout addr input xs st) (pack_loop h layout addr input ys)"
proof (induction xs arbitrary: st)
  case Nil
  then show ?case by simp
next
  case (Cons x xs)
  then show ?case
    by (cases "pack_entry h layout addr input x st") simp_all
qed


lemma byName_Some:
  "byName layout n = Some lenField \<Longrightarrow> lenField \<in> set layout \<and> le_name lenField = n"
proof -
  assume "byName layout n = Some lenField"
  then have "(n, lenField) \<in> set (rev (map (\<lambda>entry. (le_name entry, entry)) layout))"
    unfolding byName_def by (rule map_of_SomeD)
  then show ?thesis by auto
qed

lemma slots_ok_disjoint:
  "slots_ok lo es hi \<Longrightarrow> e1 \<in> set es \<Longrightarrow> e2 \<in> set es \<Longrightarrow> e1 \<noteq> e2 \<Longrightarrow>
   le_offset e1 + le_size e1 \<le> le_offset e2 \<or> le_offset e2 + le_size e2 \<le> le_offset e1"
proof (induction es arbitrary: lo)
  case Nil
  then show ?case by simp
next
  case (Cons x es)
  from Cons.prems(1) have r: "slots_ok (le_offset x + le_size x) es hi" by simp
  show ?case
  proof (cases "e1 = x")
    case True
    with Cons.prems have "e2 \<in> set es" by auto
    with r have "le_offset x + le_size x \<le> le_offset e2" using slots_ok_bounds by blast
    with True show ?thesis by simp
  next
    case False
    with Cons.prems have e1: "e1 \<in> set es" by auto
    show ?thesis
    proof (cases "e2 = x")
      case True
      with r e1 have "le_offset x + le_size x \<le> le_offset e1" using slots_ok_bounds by blast
      with True show ?thesis by simp
    next
      case False
      with Cons.prems have "e2 \<in> set es" by auto
      with r e1 Cons.prems(4) show ?thesis using Cons.IH by blast
    qed
  qed
qed

lemma entry_ok_own_width:
  assumes "entry_ok (getPointerSize h) e"
  shows "psize h (if le_kind e = K_primitive \<or> le_kind e = K_enum then le_type e else Pointer)
           = nat (le_size e)"
  using assms by (cases "le_kind e") (auto simp: entry_ok_def psize_def split: option.splits)

lemma write_ranges_cases:
  assumes "r \<in> set (write_ranges h layout X)"
  shows "r = (le_offset X, psize h (if le_kind X = K_primitive \<or> le_kind X = K_enum then le_type X else Pointer))
       \<or> ((le_kind X = K_char_ptr \<or> le_kind X = K_array) \<and> has_lengthOf X
           \<and> (\<exists>lenField. byName layout (the (le_lengthOf X)) = Some lenField
                 \<and> r = (le_offset lenField, psize h (le_type lenField))))"
proof (cases "le_kind X = K_primitive \<or> le_kind X = K_enum")
  case True
  then have "write_ranges h layout X = [(le_offset X, psize h (le_type X))]"
    unfolding write_ranges_def by (rule if_P)
  with assms True show ?thesis by (simp only: list.set) auto
next
  case False
  then have k: "le_kind X = K_char_ptr \<or> le_kind X = K_array" by (cases "le_kind X") auto
  from False have w: "write_ranges h layout X = (le_offset X, psize h Pointer) #
           (if has_lengthOf X
            then (case byName layout (the (le_lengthOf X)) of
                    None \<Rightarrow> []
                  | Some lenField \<Rightarrow> [(le_offset lenField, psize h (le_type lenField))])
            else [])"
    unfolding write_ranges_def by (rule if_not_P)
  show ?thesis
  proof (cases "r = (le_offset X, psize h Pointer)")
    case True
    with False show ?thesis by simp
  next
    case nr: False
    with assms w have m: "r \<in> set (if has_lengthOf X
            then (case byName layout (the (le_lengthOf X)) of
                    None \<Rightarrow> []
                  | Some lenField \<Rightarrow> [(le_offset lenField, psize h (le_type lenField))])
            else [])"
      by (simp only: list.set) blast
    then have hl: "has_lengthOf X" by (cases "has_lengthOf X") simp_all
    with m obtain lenField where "byName layout (the (le_lengthOf X)) = Some lenField"
      "r = (le_offset lenField, psize h (le_type lenField))"
      by (cases "byName layout (the (le_lengthOf X))") simp_all
    with k hl show ?thesis by blast
  qed
qed

lemma int_nat_size: "0 < (s::int) \<Longrightarrow> int (nat s) = s"
  by simp


lemma ranges_apart:
  assumes so: "slots_ok lo layout hi"
    and ok: "\<forall>e \<in> set layout. entry_ok (getPointerSize h) e"
    and L: "L \<in> set layout" and X: "X \<in> set layout" and ne: "X \<noteq> L"
    and tg: "(le_kind X = K_char_ptr \<or> le_kind X = K_array) \<and> has_lengthOf X \<longrightarrow>
             (case byName layout (the (le_lengthOf X)) of
                None \<Rightarrow> True
              | Some lenField \<Rightarrow> lenField \<noteq> L
                  \<and> psize h (le_type lenField) \<le> nat (le_size lenField))"
  shows "\<forall>r \<in> set (write_ranges h layout X). apart (le_offset L, nat (le_size L)) r"
proof
  fix r
  assume r: "r \<in> set (write_ranges h layout X)"
  have sL: "0 < le_size L" using slots_ok_bounds [OF so L] by simp
  have d: "e \<in> set layout \<Longrightarrow> e \<noteq> L \<Longrightarrow> p \<le> nat (le_size e) \<Longrightarrow>
      apart (le_offset L, nat (le_size L)) (le_offset e, p)" for e p
  proof -
    assume e: "e \<in> set layout" "e \<noteq> L" "p \<le> nat (le_size e)"
    have "0 < le_size e" using slots_ok_bounds [OF so e(1)] by simp
    with sL slots_ok_disjoint [OF so L e(1)] e(2,3) show ?thesis
      by (auto simp: apart_def)
  qed
  from write_ranges_cases [OF r] show "apart (le_offset L, nat (le_size L)) r"
  proof
    assume "r = (le_offset X, psize h (if le_kind X = K_primitive \<or> le_kind X = K_enum then le_type X else Pointer))"
    then have "r = (le_offset X, nat (le_size X))"
      using entry_ok_own_width [of h X] ok X by simp
    with d [OF X ne, of "nat (le_size X)"] show ?thesis by simp
  next
    assume a: "(le_kind X = K_char_ptr \<or> le_kind X = K_array) \<and> has_lengthOf X
           \<and> (\<exists>lenField. byName layout (the (le_lengthOf X)) = Some lenField
                 \<and> r = (le_offset lenField, psize h (le_type lenField)))"
    then obtain lenField where b: "byName layout (the (le_lengthOf X)) = Some lenField"
      and rr: "r = (le_offset lenField, psize h (le_type lenField))" by blast
    from a b tg have n: "lenField \<noteq> L"
      and kk: "psize h (le_type lenField) \<le> nat (le_size lenField)" by auto
    from b have m: "lenField \<in> set layout" using byName_Some by blast
    show ?thesis using d [OF m n kk] rr by simp
  qed
qed

lemma write_integer:
  assumes "t \<in> {U8, U16, I16, U32, I32, U64}"
    and "writePrimitive h view t off (JNum n) = Inr view'"
  shows "in_bounds view off (psize h t) \<and> view' = splice view off (le_bytes (psize h t) n)"
proof -
  have one: "rev (le_bytes 1 n) = le_bytes 1 n" by simp
  show ?thesis
    using assms one
    by (auto simp: writePrimitive_def psize_def setUint_Inr setInt_def number_or_0_def nan_to_0_def
        split: if_splits)
qed

lemma field_value_derived:
  assumes "le_kind L = K_primitive \<or> le_kind L = K_enum"
    and "le_lengthOf L = Some s" "s \<noteq> []"
    and "get_prop h input s = JStr str"
  shows "field_value h input L = JNum (int (length (host_TextEncoder_encode h str)))"
  using assms by (auto simp: field_value_def has_lengthOf_def Let_def)

lemma enum_to_number: "enum_to h d (JNum n) = Inr (JNum n)"
  by (simp add: enum_to_def)

lemma pack_entry_scalar:
  assumes k: "le_kind L = K_primitive \<or> le_kind L = K_enum"
    and fv: "field_value h input L = JNum n"
    and p: "pack_entry h layout addr input L st = Inr st'"
  shows "writePrimitive h (fst st) (le_type L) (le_offset L) (JNum n) = Inr (fst st')
       \<and> snd st' = snd st"
proof (cases "le_kind L = K_primitive")
  case True
  with p fv show ?thesis
    by (auto simp: pack_entry_def ebind_eq_Inr)
next
  case False
  with k have "le_kind L = K_enum" by simp
  with p fv show ?thesis
    by (auto simp: pack_entry_def ebind_eq_Inr enum_to_number split: option.splits)
qed

lemma pack_entry_offset:
  assumes "pack_entry h layout addr input entry st = Inr st'"
  shows "0 \<le> le_offset entry"
proof -
  have "\<exists>view t v view'. writePrimitive h view t (le_offset entry) v = Inr view'"
  proof (cases "le_kind entry")
    case K_primitive
    with assms show ?thesis by (auto simp: pack_entry_def Let_def ebind_eq_Inr)
  next
    case K_enum
    with assms show ?thesis
      by (auto simp: pack_entry_def Let_def ebind_eq_Inr split: option.splits)
  next
    case K_char_ptr
    with assms obtain payload st1 where "write_payload h addr entry payload st = Inr st1"
      by (auto simp: pack_entry_def Let_def ebind_eq_Inr)
    then show ?thesis
      by (cases st) (auto simp: write_payload_def ebind_eq_Inr split: if_splits)
  next
    case K_array
    with assms obtain payload st1 where "write_payload h addr entry payload st = Inr st1"
      by (auto simp: pack_entry_def Let_def ebind_eq_Inr)
    then show ?thesis
      by (cases st) (auto simp: write_payload_def ebind_eq_Inr split: if_splits)
  qed
  then obtain view t v view' where "writePrimitive h view t (le_offset entry) v = Inr view'"
    by blast
  then have "in_bounds view (le_offset entry) (psize h t)"
    using writePrimitive_cases by blast
  then show ?thesis by (simp add: in_bounds_def)
qed

lemma pack_loop_offsets:
  "pack_loop h layout addr input entries st = Inr st' \<Longrightarrow> \<forall>e \<in> set entries. 0 \<le> le_offset e"
proof (induction entries arbitrary: st)
  case Nil
  then show ?case by simp
next
  case (Cons x entries)
  from Cons.prems obtain st1 where 1: "pack_entry h layout addr input x st = Inr st1"
    and 2: "pack_loop h layout addr input entries st1 = Inr st'"
    by (auto simp: ebind_eq_Inr)
  from 1 have "0 \<le> le_offset x" by (rule pack_entry_offset)
  with Cons.IH [OF 2] show ?case by simp
qed

text \<open>
  A struct for which \<open>pack\<close> returns has a well-formed layout: every field has been
  written, so no offset is negative and the 32-bit alignment has wrapped nowhere.
\<close>

lemma pack_wf:
  assumes p: "pack h (defineStruct h fieldDefs options) addr val = Inr (buffer, allocated)"
  shows "slots_ok 0 (sd_layout (defineStruct h fieldDefs options)) (sd_size (defineStruct h fieldDefs options))"
    "\<forall>e \<in> set (sd_layout (defineStruct h fieldDefs options)). entry_ok (getPointerSize h) e"
    "map le_name (sd_layout (defineStruct h fieldDefs options)) = map fst fieldDefs"
    "0 \<le> sd_size (defineStruct h fieldDefs options)"
    "pack_loop h (sd_layout (defineStruct h fieldDefs options)) addr
       (case so_reduceValue options of None \<Rightarrow> val | Some reduceValue \<Rightarrow> reduceValue val)
       (sd_layout (defineStruct h fieldDefs options))
       (replicate (nat (sd_size (defineStruct h fieldDefs options))) 0, []) = Inr (buffer, allocated)"
proof -
  let ?sd = "defineStruct h fieldDefs options"
  have red: "sd_reduceValue ?sd = so_reduceValue options" by (simp add: defineStruct_def Let_def)
  from p show sz: "0 \<le> sd_size ?sd"
    by (simp add: pack_def Let_def split: if_splits)
  with p show pl: "pack_loop h (sd_layout ?sd) addr
       (case so_reduceValue options of None \<Rightarrow> val | Some reduceValue \<Rightarrow> reduceValue val)
       (sd_layout ?sd) (replicate (nat (sd_size ?sd)) 0, []) = Inr (buffer, allocated)"
    by (simp add: pack_def red Let_def split: if_splits)
  then have nn: "\<forall>e \<in> set (sd_layout ?sd). 0 \<le> le_offset e" by (rule pack_loop_offsets)
  from defineStruct_wf [OF nn sz]
  show "slots_ok 0 (sd_layout ?sd) (sd_size ?sd)"
    "\<forall>e \<in> set (sd_layout ?sd). entry_ok (getPointerSize h) e"
    "map le_name (sd_layout ?sd) = map fst fieldDefs"
    by auto
qed

lemma pack_entry_ptr:
  assumes k: "le_kind X = K_char_ptr \<or> le_kind X = K_array"
    and p: "pack_entry h layout addr input X st = Inr st'"
  shows "\<exists>payload st1. write_payload h addr X payload st = Inr st1
        \<and> write_length h layout X (fst st1) (payload_length h input X) = Inr (fst st')
        \<and> snd st' = snd st1
        \<and> (le_kind X = K_char_ptr \<longrightarrow>
              payload = host_TextEncoder_encode h (text_of h (field_value h input X)))
        \<and> (le_kind X = K_array \<longrightarrow>
              write_elements h (le_type X) (primitiveSizes (getPointerSize h) (le_type X))
                (values_of (field_value h input X)) 0
                (replicate (nat (int (length (values_of (field_value h input X)))
                                  * primitiveSizes (getPointerSize h) (le_type X))) 0)
              = Inr payload)"
proof (cases "le_kind X = K_char_ptr")
  case True
  with p show ?thesis
    by (auto simp: pack_entry_def Let_def ebind_eq_Inr payload_length_def)
next
  case False
  with k have a: "le_kind X = K_array" by simp
  with p show ?thesis
    by (auto simp: pack_entry_def Let_def ebind_eq_Inr payload_length_def)
qed

lemma write_payload_own:
  assumes "write_payload h addr X payload st = Inr st1"
    and "0 \<le> off" "apart (off, n) (le_offset X, psize h Pointer)"
  shows "slice (fst st1) off n = slice (fst st) off n \<and> length (fst st1) = length (fst st)"
  using write_payload_frame [of h addr X payload "fst st" "snd st" "fst st1" "snd st1" off n] assms
  by simp

text \<open>What one turn of the loop of \<open>pack\<close> does to the slot of a scalar field \<open>L\<close>.\<close>

lemma pack_entry_other:
  assumes so: "slots_ok lo layout hi"
    and ok: "\<forall>e \<in> set layout. entry_ok (getPointerSize h) e"
    and L: "L \<in> set layout" and X: "X \<in> set layout" and ne: "X \<noteq> L"
    and p: "pack_entry h layout addr input X st = Inr st'"
    and lo: "0 \<le> lo"
  shows "((le_kind X = K_char_ptr \<or> le_kind X = K_array) \<and> has_lengthOf X
          \<and> byName layout (the (le_lengthOf X)) = Some L
          \<and> (\<exists>view1. writePrimitive h view1 (le_type L) (le_offset L)
                         (JNum (payload_length h input X)) = Inr (fst st')))
       \<or> (\<not> ((le_kind X = K_char_ptr \<or> le_kind X = K_array) \<and> has_lengthOf X
               \<and> byName layout (the (le_lengthOf X)) = Some L)
           \<and> (((le_kind X = K_char_ptr \<or> le_kind X = K_array) \<and> has_lengthOf X \<longrightarrow>
                (case byName layout (the (le_lengthOf X)) of
                   None \<Rightarrow> True
                 | Some lenField \<Rightarrow> psize h (le_type lenField) \<le> nat (le_size lenField))) \<longrightarrow>
                slice (fst st') (le_offset L) (nat (le_size L)) = slice (fst st) (le_offset L) (nat (le_size L))
                \<and> length (fst st') = length (fst st)))"
proof (cases "(le_kind X = K_char_ptr \<or> le_kind X = K_array) \<and> has_lengthOf X
          \<and> byName layout (the (le_lengthOf X)) = Some L")
  case True
  then have k: "le_kind X = K_char_ptr \<or> le_kind X = K_array" by simp
  from pack_entry_ptr [OF k p] obtain payload st1
    where "write_payload h addr X payload st = Inr st1"
      and "write_length h layout X (fst st1) (payload_length h input X) = Inr (fst st')"
    by blast
  with True have "writePrimitive h (fst st1) (le_type L) (le_offset L)
                         (JNum (payload_length h input X)) = Inr (fst st')"
    by (simp add: write_length_def)
  with True show ?thesis by blast
next
  case False
  have bL: "0 \<le> le_offset L" using slots_ok_bounds [OF so L] lo by simp
  have "((le_kind X = K_char_ptr \<or> le_kind X = K_array) \<and> has_lengthOf X \<longrightarrow>
                (case byName layout (the (le_lengthOf X)) of
                   None \<Rightarrow> True
                 | Some lenField \<Rightarrow> psize h (le_type lenField) \<le> nat (le_size lenField))) \<longrightarrow>
                slice (fst st') (le_offset L) (nat (le_size L)) = slice (fst st) (le_offset L) (nat (le_size L))
                \<and> length (fst st') = length (fst st)"
  proof
    assume wd: "(le_kind X = K_char_ptr \<or> le_kind X = K_array) \<and> has_lengthOf X \<longrightarrow>
                (case byName layout (the (le_lengthOf X)) of
                   None \<Rightarrow> True
                 | Some lenField \<Rightarrow> psize h (le_type lenField) \<le> nat (le_size lenField))"
    have ap: "\<forall>r \<in> set (write_ranges h layout X). apart (le_offset L, nat (le_size L)) r"
      using so ok L X ne
    proof (rule ranges_apart)
      show "(le_kind X = K_char_ptr \<or> le_kind X = K_array) \<and> has_lengthOf X \<longrightarrow>
             (case byName layout (the (le_lengthOf X)) of
                None \<Rightarrow> True
              | Some lenField \<Rightarrow> lenField \<noteq> L
                  \<and> psize h (le_type lenField) \<le> nat (le_size lenField))"
      proof
        assume a: "(le_kind X = K_char_ptr \<or> le_kind X = K_array) \<and> has_lengthOf X"
        show "case byName layout (the (le_lengthOf X)) of
                None \<Rightarrow> True
              | Some lenField \<Rightarrow> lenField \<noteq> L
                  \<and> psize h (le_type lenField) \<le> nat (le_size lenField)"
        proof (cases "byName layout (the (le_lengthOf X))")
          case None
          then show ?thesis by simp
        next
          case (Some Y)
          with a False have "Y \<noteq> L" by auto
          then show ?thesis using Some wd a by simp
        qed
      qed
    qed
    show "slice (fst st') (le_offset L) (nat (le_size L)) = slice (fst st) (le_offset L) (nat (le_size L))
                \<and> length (fst st') = length (fst st)"
      using pack_entry_frame [of h layout addr input X "fst st" "snd st" "fst st'" "snd st'"
          "le_offset L" "nat (le_size L)"] p bL ap by simp
  qed
  with False show ?thesis by blast
qed


text \<open>
  The slot of a scalar field \<open>L\<close> holds the number \<open>N\<close>: it lies within the buffer,
  reads as what the type of \<open>L\<close> stores of \<open>N\<close>, and for an integer type its bytes
  are the little-endian bytes of \<open>N\<close>.
\<close>

lemma holds_write:
  assumes w: "writePrimitive h view t off (JNum N) = Inr view'"
  shows "in_bounds view' off (psize h t)
       \<and> readPrimitive h view' t off = Inr (stored h t (JNum N))
       \<and> (t \<in> {U8, U16, I16, U32, I32, U64} \<longrightarrow> slice view' off (psize h t) = le_bytes (psize h t) N)"
proof -
  from w obtain bs where v': "view' = splice view off bs" and lb: "length bs = psize h t"
    and ib: "in_bounds view off (psize h t)"
    using writePrimitive_cases by blast
  have 1: "in_bounds view' off (psize h t)"
    using ib lb v' in_bounds_splice [of view off bs off "psize h t"] by simp
  have 2: "readPrimitive h view' t off = Inr (stored h t (JNum N))"
    using w by (rule write_read)
  have 3: "t \<in> {U8, U16, I16, U32, I32, U64} \<longrightarrow> slice view' off (psize h t) = le_bytes (psize h t) N"
  proof
    assume t: "t \<in> {U8, U16, I16, U32, I32, U64}"
    from write_integer [OF t w] have e: "view' = splice view off (le_bytes (psize h t) N)" by simp
    show "slice view' off (psize h t) = le_bytes (psize h t) N"
      unfolding e using slice_splice_same [of view off "le_bytes (psize h t) N"] ib by simp
  qed
  from 1 2 3 show ?thesis by blast
qed

lemma holds_frame:
  assumes i: "in_bounds view off (psize h t)
       \<and> readPrimitive h view t off = Inr r
       \<and> (c \<longrightarrow> slice view off (psize h t) = bs)"
    and f: "slice view' off (psize h t) = slice view off (psize h t)" "length view' = length view"
  shows "in_bounds view' off (psize h t)
       \<and> readPrimitive h view' t off = Inr r
       \<and> (c \<longrightarrow> slice view' off (psize h t) = bs)"
proof -
  from i f(2) have 1: "in_bounds view' off (psize h t)" by (simp add: in_bounds_def)
  from i have 0: "in_bounds view off (psize h t)" by simp
  have "readPrimitive h view' t off = readPrimitive h view t off"
    using 1 0 f(1) by (rule readPrimitive_slice)
  with i f 1 show ?thesis by simp
qed

lemma pack_loop_keeps:
  assumes so: "slots_ok 0 layout hi"
    and ok: "\<forall>e \<in> set layout. entry_ok (getPointerSize h) e"
    and L: "L \<in> set layout"
    and pw: "psize h (le_type L) = nat (le_size L)"
  shows "pack_loop h layout addr input entries st = Inr st' \<Longrightarrow>
         \<forall>X \<in> set entries. X \<in> set layout \<and> X \<noteq> L
           \<and> ((le_kind X = K_char_ptr \<or> le_kind X = K_array) \<and> has_lengthOf X \<longrightarrow>
                (case byName layout (the (le_lengthOf X)) of
                   None \<Rightarrow> True
                 | Some lenField \<Rightarrow>
                     if lenField = L then payload_length h input X = N
                     else psize h (le_type lenField) \<le> nat (le_size lenField))) \<Longrightarrow>
         in_bounds (fst st) (le_offset L) (psize h (le_type L))
           \<and> readPrimitive h (fst st) (le_type L) (le_offset L) = Inr (stored h (le_type L) (JNum N))
           \<and> (le_type L \<in> {U8, U16, I16, U32, I32, U64} \<longrightarrow>
                slice (fst st) (le_offset L) (psize h (le_type L)) = le_bytes (psize h (le_type L)) N) \<Longrightarrow>
         in_bounds (fst st') (le_offset L) (psize h (le_type L))
           \<and> readPrimitive h (fst st') (le_type L) (le_offset L) = Inr (stored h (le_type L) (JNum N))
           \<and> (le_type L \<in> {U8, U16, I16, U32, I32, U64} \<longrightarrow>
                slice (fst st') (le_offset L) (psize h (le_type L)) = le_bytes (psize h (le_type L)) N)"
proof (induction entries arbitrary: st)
  case Nil
  then show ?case by simp
next
  case (Cons X entries)
  from Cons.prems(1) obtain st1 where 1: "pack_entry h layout addr input X st = Inr st1"
    and 2: "pack_loop h layout addr input entries st1 = Inr st'"
    by (auto simp: ebind_eq_Inr)
  from Cons.prems(2) have X: "X \<in> set layout" "X \<noteq> L"
    and wX: "(le_kind X = K_char_ptr \<or> le_kind X = K_array) \<and> has_lengthOf X \<longrightarrow>
                (case byName layout (the (le_lengthOf X)) of
                   None \<Rightarrow> True
                 | Some lenField \<Rightarrow>
                     if lenField = L then payload_length h input X = N
                     else psize h (le_type lenField) \<le> nat (le_size lenField))"
    by simp_all
  have i1: "in_bounds (fst st1) (le_offset L) (psize h (le_type L))
           \<and> readPrimitive h (fst st1) (le_type L) (le_offset L) = Inr (stored h (le_type L) (JNum N))
           \<and> (le_type L \<in> {U8, U16, I16, U32, I32, U64} \<longrightarrow>
                slice (fst st1) (le_offset L) (psize h (le_type L)) = le_bytes (psize h (le_type L)) N)"
    using pack_entry_other [OF so ok L X(1) X(2) 1]
  proof
    show "0 \<le> (0::int)" by simp
  next
    assume a: "(le_kind X = K_char_ptr \<or> le_kind X = K_array) \<and> has_lengthOf X
          \<and> byName layout (the (le_lengthOf X)) = Some L
          \<and> (\<exists>view1. writePrimitive h view1 (le_type L) (le_offset L)
                         (JNum (payload_length h input X)) = Inr (fst st1))"
    with wX have "payload_length h input X = N" by simp
    with a obtain view1 where "writePrimitive h view1 (le_type L) (le_offset L) (JNum N) = Inr (fst st1)"
      by auto
    then show ?thesis by (rule holds_write)
  next
    assume b: "\<not> ((le_kind X = K_char_ptr \<or> le_kind X = K_array) \<and> has_lengthOf X
               \<and> byName layout (the (le_lengthOf X)) = Some L)
           \<and> (((le_kind X = K_char_ptr \<or> le_kind X = K_array) \<and> has_lengthOf X \<longrightarrow>
                (case byName layout (the (le_lengthOf X)) of
                   None \<Rightarrow> True
                 | Some lenField \<Rightarrow> psize h (le_type lenField) \<le> nat (le_size lenField))) \<longrightarrow>
                slice (fst st1) (le_offset L) (nat (le_size L)) = slice (fst st) (le_offset L) (nat (le_size L))
                \<and> length (fst st1) = length (fst st))"
    have "(le_kind X = K_char_ptr \<or> le_kind X = K_array) \<and> has_lengthOf X \<longrightarrow>
                (case byName layout (the (le_lengthOf X)) of
                   None \<Rightarrow> True
                 | Some lenField \<Rightarrow> psize h (le_type lenField) \<le> nat (le_size lenField))"
    proof
      assume c: "(le_kind X = K_char_ptr \<or> le_kind X = K_array) \<and> has_lengthOf X"
      show "case byName layout (the (le_lengthOf X)) of
                   None \<Rightarrow> True
                 | Some lenField \<Rightarrow> psize h (le_type lenField) \<le> nat (le_size lenField)"
      proof (cases "byName layout (the (le_lengthOf X))")
        case None
        then show ?thesis by simp
      next
        case (Some Y)
        with b c have "Y \<noteq> L" by auto
        with wX c Some show ?thesis by simp
      qed
    qed
    with b have "slice (fst st1) (le_offset L) (psize h (le_type L)) = slice (fst st) (le_offset L) (psize h (le_type L))"
      "length (fst st1) = length (fst st)"
      by (simp_all add: pw)
    with Cons.prems(3) show ?thesis by (rule holds_frame)
  qed
  from 2 _ i1 show ?case
  proof (rule Cons.IH)
    show "\<forall>X \<in> set entries. X \<in> set layout \<and> X \<noteq> L
           \<and> ((le_kind X = K_char_ptr \<or> le_kind X = K_array) \<and> has_lengthOf X \<longrightarrow>
                (case byName layout (the (le_lengthOf X)) of
                   None \<Rightarrow> True
                 | Some lenField \<Rightarrow>
                     if lenField = L then payload_length h input X = N
                     else psize h (le_type lenField) \<le> nat (le_size lenField)))"
      using Cons.prems(2) by simp
  qed
qed

lemma deno_host_engine:
  "host_TextEncoder_encode (deno_host mem) = sample_encode"
  "host_TextDecoder_decode (deno_host mem) = sample_decode"
  "host_Object_prototype (deno_host mem) = sample_Object_prototype"
  by (simp_all add: deno_host_def sample_engine_def)

lemma length_sample_encode [simp]: "length (sample_encode s) = length s"
  by (simp add: sample_encode_def)

lemma sample_encode_Nil [simp]: "sample_encode s = [] \<longleftrightarrow> s = []"
  by (simp add: sample_encode_def)

lemma short_layout:
  "sd_layout (defineStruct (deno_host mem) short_string_fields no_struct_options)
     = [short_name_entry] @ short_len_entry # []"
  by (simp add: defineStruct_def short_string_fields_def getPointerSize_deno_host
      no_options_def layout_step_def layout_entry_def alignOffset_def
      short_name_entry_def short_len_entry_def)

lemma short_size:
  "sd_size (defineStruct (deno_host mem) short_string_fields no_struct_options) = 16"
  by (simp add: defineStruct_def short_string_fields_def getPointerSize_deno_host
      no_options_def layout_step_def layout_entry_def alignOffset_def)

lemma short_reduce:
  "sd_reduceValue (defineStruct (deno_host mem) short_string_fields no_struct_options) = None"
  by (simp add: defineStruct_def no_struct_options_def Let_def)

lemma ptr_deno_host: "a \<noteq> 0 \<Longrightarrow> ptr (deno_host mem) a = Inr (JBig a)"
  by (simp add: ptr_def deno_host_def sample_engine_def detectFfiRuntime_def getDenoFFI_def
      toPointer_def)

lemma pointerToBigInt_JBig: "pointerToBigInt h (JBig a) = Inr a"
  by (simp add: pointerToBigInt_def)

lemma pack_short_name:
  assumes "get_prop (deno_host mem) input ''name'' = JStr s" "s \<noteq> []"
  shows "pack_entry (deno_host mem) layout sample_addr input short_name_entry
      (replicate 16 0, [])
    = Inr (le_bytes 8 4096 @ replicate 8 0, [(4096, sample_encode s)])"
proof -
  have "splice (replicate 16 0) 0 (le_bytes 8 4096) = le_bytes 8 4096 @ replicate 8 (0 :: byte)"
    by (simp add: splice_def)
  then show ?thesis
    using assms
    by (simp add: pack_entry_def short_name_entry_def field_value_def has_lengthOf_def
      write_payload_def text_of_def deno_host_engine sample_addr_def ptr_deno_host write_length_def
      writePrimitive_def pointerToBigInt_JBig getPointerSize_deno_host setUint_def in_bounds_def)
qed

lemma pack_short_len:
  assumes "get_prop (deno_host mem) input ''name'' = JStr s" "length bs = 8"
  shows "pack_entry (deno_host mem) layout sample_addr input short_len_entry
      (bs @ replicate 8 0, al)
    = Inr (bs @ word_of_int (int (length s)) # replicate 7 0, al)"
proof -
  have "splice (bs @ replicate 8 0) 8 [word_of_int (int (length s))]
      = bs @ word_of_int (int (length s)) # replicate 7 (0 :: byte)"
    using assms by (simp add: splice_def)
  then show ?thesis
    using assms
    by (simp add: pack_entry_def short_len_entry_def field_value_def has_lengthOf_def
      deno_host_engine writePrimitive_def setUint_def in_bounds_def number_or_0_def nan_to_0_def)
qed

lemma pack_short:
  assumes "get_prop (deno_host mem) input ''name'' = JStr s" "s \<noteq> []"
  shows "pack (deno_host mem) (defineStruct (deno_host mem) short_string_fields no_struct_options)
      sample_addr input
    = Inr (le_bytes 8 4096 @ word_of_int (int (length s)) # replicate 7 0, [(4096, sample_encode s)])"
  unfolding pack_def short_layout short_size short_reduce
  using pack_short_name [OF assms] pack_short_len [OF assms(1), of "le_bytes 8 4096"]
  by simp

lemma mutual_layout:
  "sd_layout (defineStruct (deno_host mem) mutual_string_fields no_struct_options)
     = [] @ mutual_len_entry # [mutual_name_entry]"
  by (simp add: defineStruct_def mutual_string_fields_def getPointerSize_deno_host
      no_options_def layout_step_def layout_entry_def alignOffset_def
      mutual_name_entry_def mutual_len_entry_def)

lemma mutual_size:
  "sd_size (defineStruct (deno_host mem) mutual_string_fields no_struct_options) = 16"
  by (simp add: defineStruct_def mutual_string_fields_def getPointerSize_deno_host
      no_options_def layout_step_def layout_entry_def alignOffset_def)

lemma mutual_reduce:
  "sd_reduceValue (defineStruct (deno_host mem) mutual_string_fields no_struct_options) = None"
  by (simp add: defineStruct_def no_struct_options_def Let_def)

lemma mutual_byName:
  "byName [mutual_len_entry, mutual_name_entry] ''len'' = Some mutual_len_entry"
  by (simp add: byName_def mutual_name_entry_def mutual_len_entry_def)

lemma pack_mutual:
  "pack (deno_host mem) (defineStruct (deno_host mem) mutual_string_fields no_struct_options)
      sample_addr (object_literal [(''name'', JStr ''abc''), (''len'', JNum 99)])
    = Inr (3 # replicate 7 0 @ le_bytes 8 4096, [(4096, sample_encode ''abc'')])"
proof -
  let ?input = "object_literal [(''name'', JStr ''abc''), (''len'', JNum 99)]"
  have 1: "pack_entry (deno_host mem) [mutual_len_entry, mutual_name_entry] sample_addr ?input
      mutual_len_entry (replicate 16 0, []) = Inr (3 # replicate 15 0, [])"
    by (simp add: pack_entry_def mutual_len_entry_def field_value_def has_lengthOf_def
      get_prop_literal deno_host_engine writePrimitive_def setUint_def in_bounds_def
      number_or_0_def nan_to_0_def splice_def)
  have s: "splice (3 # replicate 15 0) 8 (le_bytes 8 4096) = 3 # replicate 7 0 @ le_bytes 8 (4096 :: int)"
    by (simp add: splice_def)
  have s': "splice (3 # replicate 7 0 @ le_bytes 8 4096) 0 [3] = 3 # replicate 7 0 @ le_bytes 8 (4096 :: int)"
    by (simp add: splice_def)
  have 2: "pack_entry (deno_host mem) [mutual_len_entry, mutual_name_entry] sample_addr ?input
      mutual_name_entry (3 # replicate 15 0, [])
      = Inr (3 # replicate 7 0 @ le_bytes 8 4096, [(4096, sample_encode ''abc'')])"
    using s s'
    by (simp add: pack_entry_def mutual_name_entry_def field_value_def has_lengthOf_def
      get_prop_literal write_payload_def text_of_def deno_host_engine sample_addr_def ptr_deno_host
      write_length_def byName_def
      writePrimitive_def pointerToBigInt_JBig getPointerSize_deno_host setUint_def in_bounds_def
      number_or_0_def nan_to_0_def mutual_len_entry_def)
  show ?thesis
    unfolding pack_def mutual_layout mutual_size mutual_reduce
    using 1 2 by simp
qed

text \<open>
  C3 (amended): let \<open>L\<close> be a primitive or enum field declared \<open>lengthOf\<close> a field
  \<open>s\<close>, in a struct in which every string or array field declared after \<open>L\<close> that names
  a length field of the struct either names \<open>L\<close> and has itself the length \<open>N\<close> (as the
  string \<open>s\<close> has when it is declared \<open>lengthOf\<close> \<open>L\<close> in turn), or names another field
  whose slot is as wide as its type (every field is, but an array of 8-byte elements on a
  host with 4-byte pointers). When \<open>pack\<close> returns for a value whose field \<open>s\<close> is a
  string with an encoding of \<open>N\<close> bytes, the slot of \<open>L\<close> reads as what the type of
  \<open>L\<close> stores of the Number \<open>N\<close>, whatever the caller supplied for \<open>L\<close>; for an
  integer type (\<open>u8\<close>, \<open>u16\<close>, \<open>i16\<close>, \<open>u32\<close>, \<open>i32\<close>, \<open>u64\<close>) the bytes of \<open>L\<close>
  are the little-endian bytes of \<open>N\<close> modulo \<open>2 ^ (8 * size)\<close>, and when
  \<open>N < 2 ^ (8 * size - 1)\<close> the field reads back as \<open>N\<close>.
\<close>

theorem derived_length_packed:
  assumes l: "sd_layout (defineStruct h fieldDefs options) = pre @ L # post"
    and k: "le_kind L = K_primitive \<or> le_kind L = K_enum"
    and s: "le_lengthOf L = Some s" "s \<noteq> []"
    and v: "get_prop h (case so_reduceValue options of None \<Rightarrow> val | Some reduceValue \<Rightarrow> reduceValue val) s
              = JStr str"
    and w: "\<forall>X \<in> set post. (le_kind X = K_char_ptr \<or> le_kind X = K_array) \<and> has_lengthOf X \<longrightarrow>
              (case byName (sd_layout (defineStruct h fieldDefs options)) (the (le_lengthOf X)) of
                 None \<Rightarrow> True
               | Some lenField \<Rightarrow>
                   if lenField = L
                   then payload_length h
                          (case so_reduceValue options of None \<Rightarrow> val
                           | Some reduceValue \<Rightarrow> reduceValue val) X
                        = int (length (host_TextEncoder_encode h str))
                   else psize h (le_type lenField) \<le> nat (le_size lenField))"
    and p: "pack h (defineStruct h fieldDefs options) addr val = Inr (buffer, allocated)"
  shows "readPrimitive h buffer (le_type L) (le_offset L)
           = Inr (stored h (le_type L) (JNum (int (length (host_TextEncoder_encode h str)))))
       \<and> (le_type L \<in> {U8, U16, I16, U32, I32, U64} \<longrightarrow>
            slice buffer (le_offset L) (nat (le_size L))
              = le_bytes (nat (le_size L)) (int (length (host_TextEncoder_encode h str))))
       \<and> (le_type L \<in> {U8, U16, I16, U32, I32, U64}
            \<and> int (length (host_TextEncoder_encode h str)) < 2 ^ (8 * nat (le_size L) - 1) \<longrightarrow>
            readPrimitive h buffer (le_type L) (le_offset L)
              = Inr (if le_type L = U64 then JBig (int (length (host_TextEncoder_encode h str)))
                     else JNum (int (length (host_TextEncoder_encode h str)))))"
proof -
  let ?sd = "defineStruct h fieldDefs options"
  let ?layout = "sd_layout ?sd"
  let ?input = "case so_reduceValue options of None \<Rightarrow> val | Some reduceValue \<Rightarrow> reduceValue val"
  let ?N = "int (length (host_TextEncoder_encode h str))"
  let ?n = "nat (le_size L)"
  note wf = pack_wf [OF p]
  have so: "slots_ok 0 ?layout (sd_size ?sd)" by (rule wf(1))
  have ok: "\<forall>e \<in> set ?layout. entry_ok (getPointerSize h) e" by (rule wf(2))
  have Lin: "L \<in> set ?layout" using l by simp
  have okL: "entry_ok (getPointerSize h) L" using ok Lin by blast
  have bL: "0 \<le> le_offset L" "0 < le_size L" using slots_ok_bounds [OF so Lin] by auto
  have pw: "psize h (le_type L) = ?n" using entry_ok_own_width [OF okL] k by auto
  from wf(5) have "ebind (pack_loop h ?layout addr ?input pre (replicate (nat (sd_size ?sd)) 0, []))
      (pack_loop h ?layout addr ?input (L # post)) = Inr (buffer, allocated)"
    by (subst (asm) (2) l) (simp only: pack_loop_append)
  then obtain st1 st2 where 1: "pack_entry h ?layout addr ?input L st1 = Inr st2"
    and 2: "pack_loop h ?layout addr ?input post st2 = Inr (buffer, allocated)"
    by (auto simp: ebind_eq_Inr)
  have fv: "field_value h ?input L = JNum ?N"
    using k s v by (rule field_value_derived)
  have w1: "writePrimitive h (fst st1) (le_type L) (le_offset L) (JNum ?N) = Inr (fst st2)"
    using pack_entry_scalar [OF k fv 1] by simp
  have i2: "in_bounds (fst st2) (le_offset L) (psize h (le_type L))
           \<and> readPrimitive h (fst st2) (le_type L) (le_offset L) = Inr (stored h (le_type L) (JNum ?N))
           \<and> (le_type L \<in> {U8, U16, I16, U32, I32, U64} \<longrightarrow>
                slice (fst st2) (le_offset L) (psize h (le_type L)) = le_bytes (psize h (le_type L)) ?N)"
    using w1 by (rule holds_write)
  have post: "\<forall>X \<in> set post. X \<in> set ?layout \<and> X \<noteq> L
           \<and> ((le_kind X = K_char_ptr \<or> le_kind X = K_array) \<and> has_lengthOf X \<longrightarrow>
                (case byName ?layout (the (le_lengthOf X)) of
                   None \<Rightarrow> True
                 | Some lenField \<Rightarrow>
                     if lenField = L then payload_length h ?input X = ?N
                     else psize h (le_type lenField) \<le> nat (le_size lenField)))"
  proof
    fix X
    assume X: "X \<in> set post"
    then have Xin: "X \<in> set ?layout" using l by simp
    have "le_offset L + le_size L \<le> le_offset X"
      using slots_ok_split [of 0 pre L post "sd_size ?sd"] so l X by simp
    with bL have ne: "X \<noteq> L" by auto
    from Xin ne w X show "X \<in> set ?layout \<and> X \<noteq> L
           \<and> ((le_kind X = K_char_ptr \<or> le_kind X = K_array) \<and> has_lengthOf X \<longrightarrow>
                (case byName ?layout (the (le_lengthOf X)) of
                   None \<Rightarrow> True
                 | Some lenField \<Rightarrow>
                     if lenField = L then payload_length h ?input X = ?N
                     else psize h (le_type lenField) \<le> nat (le_size lenField)))"
      by blast
  qed
  have fin: "in_bounds (fst (buffer, allocated)) (le_offset L) (psize h (le_type L))
           \<and> readPrimitive h (fst (buffer, allocated)) (le_type L) (le_offset L)
               = Inr (stored h (le_type L) (JNum ?N))
           \<and> (le_type L \<in> {U8, U16, I16, U32, I32, U64} \<longrightarrow>
                slice (fst (buffer, allocated)) (le_offset L) (psize h (le_type L))
                  = le_bytes (psize h (le_type L)) ?N)"
    using so ok Lin pw 2 post i2 by (rule pack_loop_keeps)
  then have A: "readPrimitive h buffer (le_type L) (le_offset L) = Inr (stored h (le_type L) (JNum ?N))"
    and B: "le_type L \<in> {U8, U16, I16, U32, I32, U64} \<longrightarrow>
            slice buffer (le_offset L) ?n = le_bytes ?n ?N"
    by (simp_all add: pw)
  have C: "le_type L \<in> {U8, U16, I16, U32, I32, U64} \<and> ?N < 2 ^ (8 * ?n - 1) \<longrightarrow>
            readPrimitive h buffer (le_type L) (le_offset L)
              = Inr (if le_type L = U64 then JBig ?N else JNum ?N)"
  proof
    assume c: "le_type L \<in> {U8, U16, I16, U32, I32, U64} \<and> ?N < 2 ^ (8 * ?n - 1)"
    then have "stored h (le_type L) (JNum ?N) = (if le_type L = U64 then JBig ?N else JNum ?N)"
      using stored_length [of "le_type L" ?N h] pw by simp
    with A show "readPrimitive h buffer (le_type L) (le_offset L)
              = Inr (if le_type L = U64 then JBig ?N else JNum ?N)"
      by simp
  qed
  from A B C show ?thesis by blast
qed

text \<open>
  C3 as the claim states it fails where \<open>N\<close> does not fit the length field: with a
  one-byte length field and a string of 300 bytes, the length field holds 44.
\<close>

theorem derived_length_counterexample:
  "ebind (pack (deno_host []) (defineStruct (deno_host []) short_string_fields no_struct_options)
            sample_addr (object_literal [(''name'', JStr (replicate 300 CHR ''a''))]))
     (\<lambda>st. readPrimitive (deno_host []) (fst st) U8 8) = Inr (JNum 44)"
proof -
  have "get_prop (deno_host []) (object_literal [(''name'', JStr (replicate 300 CHR ''a''))]) ''name''
      = JStr (replicate 300 CHR ''a'')"
    by (simp add: get_prop_literal)
  moreover have "replicate 300 CHR ''a'' \<noteq> []" by simp
  ultimately show ?thesis
    by (simp add: pack_short readPrimitive_def getUint_def in_bounds_def slice_def uint_word_of_int)
qed

theorem derived_length_packed_witness:
  "ebind (pack (deno_host []) (defineStruct (deno_host []) mutual_string_fields no_struct_options)
            sample_addr (object_literal [(''name'', JStr ''abc''), (''len'', JNum 99)]))
     (\<lambda>st. readPrimitive (deno_host []) (fst st) U8 0) = Inr (JNum 3)"
proof -
  let ?h = "deno_host []"
  let ?val = "object_literal [(''name'', JStr ''abc''), (''len'', JNum 99)]"
  have g: "get_prop ?h ?val ''name'' = JStr ''abc''" by (simp add: get_prop_literal)
  note p = pack_mutual [of "[]"]
  have k: "le_kind mutual_len_entry = K_primitive \<or> le_kind mutual_len_entry = K_enum"
    by (simp add: mutual_len_entry_def)
  have s: "le_lengthOf mutual_len_entry = Some ''name''" "''name'' \<noteq> []"
    by (simp_all add: mutual_len_entry_def)
  have v: "get_prop ?h (case so_reduceValue no_struct_options of None \<Rightarrow> ?val
                     | Some reduceValue \<Rightarrow> reduceValue ?val) ''name'' = JStr ''abc''"
    using g by (simp add: no_struct_options_def)
  have pl: "payload_length ?h ?val mutual_name_entry = 3"
    by (simp add: payload_length_def mutual_name_entry_def field_value_def has_lengthOf_def
        get_prop_literal text_of_def deno_host_engine)
  have w: "\<forall>X \<in> set [mutual_name_entry]. (le_kind X = K_char_ptr \<or> le_kind X = K_array) \<and> has_lengthOf X \<longrightarrow>
              (case byName (sd_layout (defineStruct ?h mutual_string_fields no_struct_options))
                      (the (le_lengthOf X)) of
                 None \<Rightarrow> True
               | Some lenField \<Rightarrow>
                   if lenField = mutual_len_entry
                   then payload_length ?h
                          (case so_reduceValue no_struct_options of None \<Rightarrow> ?val
                           | Some reduceValue \<Rightarrow> reduceValue ?val) X
                        = int (length (host_TextEncoder_encode ?h ''abc''))
                   else psize ?h (le_type lenField) \<le> nat (le_size lenField))"
  proof -
    have sel: "le_kind mutual_name_entry = K_char_ptr" "has_lengthOf mutual_name_entry"
      "the (le_lengthOf mutual_name_entry) = ''len''"
      by (simp_all add: mutual_name_entry_def has_lengthOf_def)
    have r: "(case so_reduceValue no_struct_options of None \<Rightarrow> ?val
              | Some reduceValue \<Rightarrow> reduceValue ?val) = ?val"
      by (simp add: no_struct_options_def)
    show ?thesis
      unfolding r using pl mutual_byName
      by (simp add: sel mutual_layout deno_host_engine)
  qed
  have "le_type mutual_len_entry \<in> {U8, U16, I16, U32, I32, U64}
      \<and> int (length (host_TextEncoder_encode ?h ''abc'')) < 2 ^ (8 * nat (le_size mutual_len_entry) - 1)"
    by (simp add: mutual_len_entry_def deno_host_engine)
  with derived_length_packed [OF mutual_layout k s v w p]
  have "readPrimitive ?h (3 # replicate 7 0 @ le_bytes 8 4096)
          (le_type mutual_len_entry) (le_offset mutual_len_entry)
        = Inr (if le_type mutual_len_entry = U64
               then JBig (int (length (host_TextEncoder_encode ?h ''abc'')))
               else JNum (int (length (host_TextEncoder_encode ?h ''abc''))))"
    by blast
  then show ?thesis
    unfolding p by (simp add: mutual_len_entry_def deno_host_engine)
qed

section \<open>The round trip: \<open>unpack\<close> of a packed buffer\<close>




















































































end
